theory Spec2Isabelle
  imports Main
begin

section \<open>Values, keys and declarations\<close>

text \<open>
  JavaScript values as far as the engine looks at them.  Numbers are modelled by integers
  plus the one value the default change detector singles out, \<open>NaN\<close>; objects by
  their identity.
\<close>

datatype jsval =
    Undefined
  | Null
  | JBool bool
  | JNum int
  | JNaN
  | JStr string
  | JSym nat
  | JObj nat

text \<open>\<open>a === b\<close>: equal values of the same type, \<open>NaN\<close> being unequal to itself.\<close>

definition strict_eq :: "jsval \<Rightarrow> jsval \<Rightarrow> bool" where
  "strict_eq a b = (a = b \<and> a \<noteq> JNaN)"

text \<open>A \<open>PropertyKey\<close> is a string, a number or a symbol.\<close>

datatype key = KStr string | KNum int | KSym nat

text \<open>Truthiness of a key, as tested by \<open>if (propertyKey)\<close> and \<open>if (!propertyKey)\<close>.\<close>

fun key_truthy :: "key \<Rightarrow> bool" where
  "key_truthy (KStr s) = (s \<noteq> [])"
| "key_truthy (KNum n) = (n \<noteq> 0)"
| "key_truthy (KSym _) = True"

fun key_val :: "key \<Rightarrow> jsval" where
  "key_val (KStr s) = JStr s"
| "key_val (KNum n) = JNum n"
| "key_val (KSym n) = JSym n"

text \<open>An attribute value as the host passes it: a string or \<open>null\<close>.\<close>

fun attr_val :: "string option \<Rightarrow> jsval" where
  "attr_val None = Null"
| "attr_val (Some v) = JStr v"

text \<open>What is named in an error message: a function (by its text) or a key.\<close>

datatype hname = FunctionName string | KeyName key

datatype error =
    AttributeReflectorError hname
  | PropertyReflectorError hname
  | PropertyNotifierError hname
  | ChangeDetectorError hname
  | UncaughtError

text \<open>Events handed to \<open>dispatchEvent\<close>, and the calls into the host in their order.\<close>

datatype dom_event =
    PropertyChanged key jsval jsval
  | Lifecycle string "bool option"
  | UserEvent string

datatype effect =
    LitRender string
  | HostSetAttribute string string
  | HostRemoveAttribute string
  | DispatchEvent dom_event
  | ConsoleLog string

text \<open>The promises of \<open>_enqueueUpdate\<close> and its suspended continuations.\<close>

datatype pstate = Pending | Resolved bool

datatype job =
    AwaitPrevious nat nat
  | AwaitFrame nat
  | AwaitResult nat

text \<open>The instance state of a \<open>CustomElement\<close>, with the host's side of it.\<close>

record elem =
  props :: "key \<Rightarrow> jsval"
  attrs :: "string \<Rightarrow> string option"
  effects :: "effect list"
  changedProperties :: "(key \<times> jsval) list"
  reflectingProperties :: "(key \<times> jsval) list"
  notifyingProperties :: "(key \<times> jsval) list"
  isConnected :: bool
  isReflecting :: bool
  hasUpdated :: bool
  hasRequestedUpdate :: bool
  updateRequest :: nat
  promises :: "pstate list"
  jobs :: "job list"

definition init_elem :: elem where
  "init_elem = \<lparr> props = (\<lambda>_. Undefined), attrs = (\<lambda>_. None), effects = [],
     changedProperties = [], reflectingProperties = [], notifyingProperties = [],
     isConnected = False, isReflecting = False, hasUpdated = False,
     hasRequestedUpdate = False, updateRequest = 0, promises = [Resolved True], jobs = [] \<rparr>"

text \<open>
  What the body of a user-written handler or executor does to the element, through the
  element's public surface: property writes, attribute writes, events, and throwing.  A
  handler is the function from its three arguments and the element as it finds it to the
  statements it executes.
\<close>

datatype action =
    SetProp key jsval
  | SetAttr string string
  | RemoveAttr string
  | Dispatch string
  | Throw

type_synonym handler = "jsval \<Rightarrow> jsval \<Rightarrow> jsval \<Rightarrow> elem \<Rightarrow> action list"

text \<open>The option type \<open>boolean | PropertyKey | Function\<close> of a declaration.\<close>

datatype href = Flag bool | Method key | Function string handler

text \<open>\<open>observe: boolean | PropertyChangeDetector\<close>; a detector that throws returns \<open>None\<close>.\<close>

datatype observer = ObserveFlag bool | Detector string "jsval \<Rightarrow> jsval \<Rightarrow> bool option"

text \<open>\<open>attribute: boolean | string\<close>.\<close>

datatype attr_opt = AttrFlag bool | AttrName string

text \<open>The result of \<open>toAttribute\<close>.\<close>

datatype attr_result = AUndefined | ANull | AString string

record decl =
  attribute :: attr_opt
  toAttribute :: "jsval \<Rightarrow> attr_result option"
  fromAttribute :: "string option \<Rightarrow> jsval option"
  reflectAttribute_opt :: href
  reflectProperty_opt :: href
  notify :: href
  observe :: observer

text \<open>The static side of a class: the registry maps, its methods, its template.\<close>

record cls =
  attributes :: "string \<Rightarrow> key option"
  properties :: "key \<Rightarrow> decl option"
  methods :: "key \<Rightarrow> handler option"
  observedAttributes :: "string list"
  template :: "elem \<Rightarrow> string option"

text \<open>\<open>DEFAULT_PROPERTY_CHANGE_DETECTOR\<close>.\<close>

definition DEFAULT_PROPERTY_CHANGE_DETECTOR :: "jsval \<Rightarrow> jsval \<Rightarrow> bool option" where
  "DEFAULT_PROPERTY_CHANGE_DETECTOR oldValue newValue =
     Some (\<not> strict_eq oldValue newValue \<and> (strict_eq oldValue oldValue \<or> strict_eq newValue newValue))"

text \<open>Truthiness of the three kinds of option value.\<close>

fun href_truthy :: "href \<Rightarrow> bool" where
  "href_truthy (Flag b) = b"
| "href_truthy (Method k) = key_truthy k"
| "href_truthy (Function _ _) = True"

fun attr_opt_truthy :: "attr_opt \<Rightarrow> bool" where
  "attr_opt_truthy (AttrFlag b) = b"
| "attr_opt_truthy (AttrName n) = (n \<noteq> [])"

text \<open>The attribute name the host sees when \<open>attribute\<close> is passed as a name.\<close>

fun attr_opt_name :: "attr_opt \<Rightarrow> string" where
  "attr_opt_name (AttrName n) = n"
| "attr_opt_name (AttrFlag b) = (if b then ''true'' else ''false'')"

section \<open>JavaScript maps\<close>

text \<open>
  \<open>Map.prototype.set\<close>: an existing key keeps its place and takes the new value, a new
  key goes to the end.
\<close>

fun map_set :: "'k \<Rightarrow> 'v \<Rightarrow> ('k \<times> 'v) list \<Rightarrow> ('k \<times> 'v) list" where
  "map_set k v [] = [(k, v)]"
| "map_set k v ((k', v') # m) = (if k' = k then (k, v) # m else (k', v') # map_set k v m)"

definition map_has :: "'k \<Rightarrow> ('k \<times> 'v) list \<Rightarrow> bool" where
  "map_has k m = (map_of m k \<noteq> None)"

definition map_get :: "'k \<Rightarrow> ('k \<times> jsval) list \<Rightarrow> jsval" where
  "map_get k m = (case map_of m k of None \<Rightarrow> Undefined | Some v \<Rightarrow> v)"

section \<open>The update scheduler: requests\<close>

definition priv_getPropertyDeclaration :: "cls \<Rightarrow> key \<Rightarrow> decl option" where
  "priv_getPropertyDeclaration c propertyKey = properties c propertyKey"

text \<open>\<open>hasChanged\<close>: \<open>Inl\<close> is the change detector error.\<close>

definition hasChanged :: "cls \<Rightarrow> key \<Rightarrow> jsval \<Rightarrow> jsval \<Rightarrow> error + bool" where
  "hasChanged c propertyKey oldValue newValue =
     (case priv_getPropertyDeclaration c propertyKey of
        None \<Rightarrow> Inr False
      | Some d \<Rightarrow>
          (case observe d of
             Detector name f \<Rightarrow>
               (case f oldValue newValue of
                  Some b \<Rightarrow> Inr b
                | None \<Rightarrow> Inl (ChangeDetectorError (FunctionName name)))
           | ObserveFlag _ \<Rightarrow> Inr False))"

text \<open>
  \<open>_enqueueUpdate\<close> up to its first \<open>await\<close>: the flag is set, a new pending promise
  becomes the update request, and the rest of the function waits for the previous one.
\<close>

definition priv_enqueueUpdate :: "elem \<Rightarrow> elem" where
  "priv_enqueueUpdate s =
     (let previousRequest = updateRequest s; p = length (promises s)
      in s\<lparr> hasRequestedUpdate := True,
            promises := promises s @ [Pending],
            updateRequest := p,
            jobs := jobs s @ [AwaitPrevious previousRequest p] \<rparr>)"

text \<open>\<open>requestUpdate\<close> returns the promise it hands out together with the new state.\<close>

definition requestUpdate :: "cls \<Rightarrow> key option \<Rightarrow> jsval \<Rightarrow> jsval \<Rightarrow> elem \<Rightarrow> (error \<times> elem) + (nat \<times> elem)" where
  "requestUpdate c propertyKey oldValue newValue s =
     (let enqueue = (\<lambda>t. let t' = (if \<not> hasRequestedUpdate t then priv_enqueueUpdate t else t)
                         in Inr (updateRequest t', t'))
      in case propertyKey of
           None \<Rightarrow> enqueue s
         | Some k \<Rightarrow>
             if key_truthy k then
               (case hasChanged c k oldValue newValue of
                  Inl e \<Rightarrow> Inl (e, s)
                | Inr False \<Rightarrow> Inr (updateRequest s, s)
                | Inr True \<Rightarrow>
                    (let s1 = s\<lparr> changedProperties := map_set k oldValue (changedProperties s) \<rparr>;
                         s2 = (if \<not> isReflecting s1
                               then s1\<lparr> reflectingProperties := map_set k oldValue (reflectingProperties s1) \<rparr>
                               else s1)
                     in enqueue s2))
             else enqueue s)"

text \<open>
  Modelled from the spec: the accessor that the property decorator installs for a declared
  property (the decorator is not part of the sources at hand; the bundled build of the demo
  has an accessor of this shape).  \<open>set(v)\<close> captures the old value, stores the new one,
  then calls \<open>requestUpdate(key, old, v)\<close>.  A key without a declaration is a plain
  field.
\<close>

definition set_property :: "cls \<Rightarrow> key \<Rightarrow> jsval \<Rightarrow> elem \<Rightarrow> (error \<times> elem) + elem" where
  "set_property c k v s =
     (case properties c k of
        None \<Rightarrow> Inr (s\<lparr> props := (props s)(k := v) \<rparr>)
      | Some _ \<Rightarrow>
          (let oldValue = props s k; s1 = s\<lparr> props := (props s)(k := v) \<rparr>
           in case requestUpdate c (Some k) oldValue v s1 of
                Inl e \<Rightarrow> Inl e
              | Inr (_, s2) \<Rightarrow> Inr s2))"

section \<open>The host, and the bodies of handlers\<close>

text \<open>
  \<open>setAttribute\<close> and \<open>removeAttribute\<close> of the host.  The host calls the
  attribute-changed callback \<open>cb\<close> synchronously for an observed attribute, also when the
  value written is the one already there; removing an absent attribute changes nothing.
\<close>

definition host_setAttribute ::
  "(string \<Rightarrow> string option \<Rightarrow> string option \<Rightarrow> elem \<Rightarrow> (error \<times> elem) + elem) \<Rightarrow> cls
     \<Rightarrow> string \<Rightarrow> string \<Rightarrow> elem \<Rightarrow> (error \<times> elem) + elem" where
  "host_setAttribute cb c name v s =
     (let old = attrs s name;
          s1 = s\<lparr> attrs := (attrs s)(name := Some v), effects := effects s @ [HostSetAttribute name v] \<rparr>
      in if name \<in> set (observedAttributes c) then cb name old (Some v) s1 else Inr s1)"

definition host_removeAttribute ::
  "(string \<Rightarrow> string option \<Rightarrow> string option \<Rightarrow> elem \<Rightarrow> (error \<times> elem) + elem) \<Rightarrow> cls
     \<Rightarrow> string \<Rightarrow> elem \<Rightarrow> (error \<times> elem) + elem" where
  "host_removeAttribute cb c name s =
     (let old = attrs s name;
          s1 = s\<lparr> attrs := (attrs s)(name := None), effects := effects s @ [HostRemoveAttribute name] \<rparr>
      in if name \<in> set (observedAttributes c) \<and> old \<noteq> None then cb name old None s1 else Inr s1)"

text \<open>
  One statement of a handler body, and the body as a whole; a throw ends the body.  The
  attribute-changed callback of the class, which is defined from these bodies further down,
  comes in as \<open>cb\<close>.
\<close>

fun perform ::
  "(string \<Rightarrow> string option \<Rightarrow> string option \<Rightarrow> elem \<Rightarrow> (error \<times> elem) + elem) \<Rightarrow> cls
     \<Rightarrow> action \<Rightarrow> elem \<Rightarrow> (error \<times> elem) + elem" where
  "perform cb c (SetProp k v) s = set_property c k v s"
| "perform cb c (SetAttr name v) s = host_setAttribute cb c name v s"
| "perform cb c (RemoveAttr name) s = host_removeAttribute cb c name s"
| "perform cb c (Dispatch name) s = Inr (s\<lparr> effects := effects s @ [DispatchEvent (UserEvent name)] \<rparr>)"
| "perform cb c Throw s = Inl (UncaughtError, s)"

fun run ::
  "(string \<Rightarrow> string option \<Rightarrow> string option \<Rightarrow> elem \<Rightarrow> (error \<times> elem) + elem) \<Rightarrow> cls
     \<Rightarrow> action list \<Rightarrow> elem \<Rightarrow> (error \<times> elem) + elem" where
  "run cb c [] s = Inr s"
| "run cb c (a # as) s = (case perform cb c a s of Inl e \<Rightarrow> Inl e | Inr s' \<Rightarrow> run cb c as s')"

text \<open>
  \<open>try { handler(...) } catch (error) { throw wrap(handler) }\<close>: whatever the body throws
  is replaced by the engine's own error; what the body did before it threw stays done.
\<close>

definition try_handler :: "error \<Rightarrow> (error \<times> elem) + elem \<Rightarrow> (error \<times> elem) + elem" where
  "try_handler wrapped r = (case r of Inl (e, s) \<Rightarrow> Inl (wrapped, s) | Inr s \<Rightarrow> Inr s)"

text \<open>
  The attribute-changed callback as a handler body meets it while the reflecting guard is
  set: \<open>if (this._isReflecting) return;\<close>.  A body that \<open>reflectAttribute\<close> runs
  starts with the guard set, and no statement of a body clears it; that the callback of the
  class is this one for as long as the guard is set is \<open>run_callback_guarded\<close> below.
\<close>

definition guarded_callback :: "string \<Rightarrow> string option \<Rightarrow> string option \<Rightarrow> elem \<Rightarrow> (error \<times> elem) + elem" where
  "guarded_callback attribute_name oldValue newValue s = Inr s"

section \<open>The reflection engine\<close>

text \<open>The default attribute reflector \<open>_reflectAttribute\<close>.\<close>

definition priv_reflectAttribute :: "cls \<Rightarrow> string \<Rightarrow> string option \<Rightarrow> string option \<Rightarrow> elem \<Rightarrow> (error \<times> elem) + elem" where
  "priv_reflectAttribute c attributeName oldValue newValue s =
     (case attributes c attributeName of
        None \<Rightarrow> Inl (UncaughtError, s)
      | Some propertyKey \<Rightarrow>
          (case priv_getPropertyDeclaration c propertyKey of
             None \<Rightarrow> Inl (UncaughtError, s)
           | Some d \<Rightarrow>
               (case fromAttribute d newValue of
                  None \<Rightarrow> Inl (UncaughtError, s)
                | Some propertyValue \<Rightarrow> set_property c propertyKey propertyValue s)))"

definition reflectAttribute :: "cls \<Rightarrow> string \<Rightarrow> string option \<Rightarrow> string option \<Rightarrow> elem \<Rightarrow> (error \<times> elem) + elem" where
  "reflectAttribute c attributeName oldValue newValue s =
     (let ignore = Inr (s\<lparr> effects := effects s @ [ConsoleLog attributeName] \<rparr>)
      in case attributes c attributeName of
           None \<Rightarrow> ignore
         | Some propertyKey \<Rightarrow>
             if \<not> key_truthy propertyKey then ignore
             else
               (case priv_getPropertyDeclaration c propertyKey of
                  None \<Rightarrow> Inl (UncaughtError, s)
                | Some d \<Rightarrow>
                    if href_truthy (reflectAttribute_opt d) then
                      (let s1 = s\<lparr> isReflecting := True \<rparr>;
                           r = (case reflectAttribute_opt d of
                                  Function name h \<Rightarrow>
                                    try_handler (AttributeReflectorError (FunctionName name))
                                      (run guarded_callback c
                                         (h (JStr attributeName) (attr_val oldValue) (attr_val newValue) s1) s1)
                                | Method m \<Rightarrow>
                                    try_handler (AttributeReflectorError (KeyName m))
                                      (case methods c m of
                                         None \<Rightarrow> Inl (UncaughtError, s1)
                                       | Some h \<Rightarrow>
                                           run guarded_callback c
                                             (h (JStr attributeName) (attr_val oldValue) (attr_val newValue) s1) s1)
                                | Flag _ \<Rightarrow> priv_reflectAttribute c attributeName oldValue newValue s1)
                       in case r of
                            Inl e \<Rightarrow> Inl e
                          | Inr s2 \<Rightarrow> Inr (s2\<lparr> isReflecting := False \<rparr>))
                    else Inr s))"

definition attributeChangedCallback :: "cls \<Rightarrow> string \<Rightarrow> string option \<Rightarrow> string option \<Rightarrow> elem \<Rightarrow> (error \<times> elem) + elem" where
  "attributeChangedCallback c attribute_name oldValue newValue s =
     (if isReflecting s then Inr s
      else if oldValue \<noteq> newValue then reflectAttribute c attribute_name oldValue newValue s
      else Inr s)"

text \<open>\<open>this.setAttribute\<close> and \<open>this.removeAttribute\<close> on an element of class \<open>c\<close>.\<close>

definition setAttribute :: "cls \<Rightarrow> string \<Rightarrow> string \<Rightarrow> elem \<Rightarrow> (error \<times> elem) + elem" where
  "setAttribute c = host_setAttribute (attributeChangedCallback c) c"

definition removeAttribute :: "cls \<Rightarrow> string \<Rightarrow> elem \<Rightarrow> (error \<times> elem) + elem" where
  "removeAttribute c = host_removeAttribute (attributeChangedCallback c) c"

text \<open>The default property reflector \<open>_reflectProperty\<close>.\<close>

definition priv_reflectProperty :: "cls \<Rightarrow> key \<Rightarrow> jsval \<Rightarrow> jsval \<Rightarrow> elem \<Rightarrow> (error \<times> elem) + elem" where
  "priv_reflectProperty c propertyKey oldValue newValue s =
     (case priv_getPropertyDeclaration c propertyKey of
        None \<Rightarrow> Inl (UncaughtError, s)
      | Some d \<Rightarrow>
          if \<not> attr_opt_truthy (attribute d) then Inr s
          else
            (let attributeName = attr_opt_name (attribute d)
             in case toAttribute d newValue of
                  None \<Rightarrow> Inl (UncaughtError, s)
                | Some AUndefined \<Rightarrow> Inr s
                | Some ANull \<Rightarrow> removeAttribute c attributeName s
                | Some (AString attributeValue) \<Rightarrow> setAttribute c attributeName attributeValue s))"

definition reflectProperty :: "cls \<Rightarrow> key \<Rightarrow> jsval \<Rightarrow> jsval \<Rightarrow> elem \<Rightarrow> (error \<times> elem) + elem" where
  "reflectProperty c propertyKey oldValue newValue s =
     (case priv_getPropertyDeclaration c propertyKey of
        None \<Rightarrow> Inr s
      | Some d \<Rightarrow>
          if href_truthy (reflectProperty_opt d) then
            (let s1 = s\<lparr> isReflecting := True \<rparr>;
                 r = (case reflectProperty_opt d of
                        Function name h \<Rightarrow>
                          try_handler (PropertyReflectorError (FunctionName name))
                            (run (attributeChangedCallback c) c (h (key_val propertyKey) oldValue newValue s1) s1)
                      | Method m \<Rightarrow>
                          try_handler (PropertyReflectorError (KeyName m))
                            (case methods c m of
                               None \<Rightarrow> Inl (UncaughtError, s1)
                             | Some h \<Rightarrow>
                                 run (attributeChangedCallback c) c (h (key_val propertyKey) oldValue newValue s1) s1)
                      | Flag _ \<Rightarrow> priv_reflectProperty c propertyKey oldValue newValue s1)
             in case r of
                  Inl e \<Rightarrow> Inl e
                | Inr s2 \<Rightarrow> Inr (s2\<lparr> isReflecting := False \<rparr>))
          else Inr s)"

section \<open>The notification engine\<close>

definition dispatchEvent :: "dom_event \<Rightarrow> elem \<Rightarrow> elem" where
  "dispatchEvent ev s = s\<lparr> effects := effects s @ [DispatchEvent ev] \<rparr>"

text \<open>
  \<open>_notifyProperty\<close> and \<open>_notifyLifecycle\<close>; the event names, which
  \<open>createEventName\<close> derives from the key and the lifecycle, are left as the event's
  constructor and arguments.
\<close>

definition priv_notifyProperty :: "key \<Rightarrow> jsval \<Rightarrow> jsval \<Rightarrow> elem \<Rightarrow> elem" where
  "priv_notifyProperty propertyKey oldValue newValue s =
     dispatchEvent (PropertyChanged propertyKey oldValue newValue) s"

definition priv_notifyLifecycle :: "string \<Rightarrow> bool option \<Rightarrow> elem \<Rightarrow> elem" where
  "priv_notifyLifecycle lifecycle detail s = dispatchEvent (Lifecycle lifecycle detail) s"

definition notifyProperty :: "cls \<Rightarrow> key \<Rightarrow> jsval \<Rightarrow> jsval \<Rightarrow> elem \<Rightarrow> (error \<times> elem) + elem" where
  "notifyProperty c propertyKey oldValue newValue s =
     (case priv_getPropertyDeclaration c propertyKey of
        None \<Rightarrow> Inr s
      | Some d \<Rightarrow>
          if href_truthy (notify d) then
            (case notify d of
               Function name h \<Rightarrow>
                 try_handler (PropertyNotifierError (FunctionName name))
                   (run (attributeChangedCallback c) c (h (key_val propertyKey) oldValue newValue s) s)
             | Method m \<Rightarrow>
                 try_handler (PropertyNotifierError (KeyName m))
                   (case methods c m of
                      None \<Rightarrow> Inl (UncaughtError, s)
                    | Some h \<Rightarrow>
                        run (attributeChangedCallback c) c (h (key_val propertyKey) oldValue newValue s) s)
             | Flag _ \<Rightarrow> Inr (priv_notifyProperty propertyKey oldValue newValue s))
          else Inr s)"

section \<open>The update pass\<close>

text \<open>\<open>render\<close>: the template, if the class returns one, is handed to the renderer.\<close>

definition render :: "cls \<Rightarrow> elem \<Rightarrow> elem" where
  "render c s = (case template c s of None \<Rightarrow> s | Some t \<Rightarrow> s\<lparr> effects := effects s @ [LitRender t] \<rparr>)"

definition updateCallback :: "(key \<times> jsval) list \<Rightarrow> bool \<Rightarrow> elem \<Rightarrow> elem" where
  "updateCallback changed firstUpdate s = priv_notifyLifecycle ''update'' (Some firstUpdate) s"

text \<open>\<open>Map.prototype.forEach\<close> with a callback that may throw.\<close>

fun forEach :: "('a \<Rightarrow> elem \<Rightarrow> (error \<times> elem) + elem) \<Rightarrow> 'a list \<Rightarrow> elem \<Rightarrow> (error \<times> elem) + elem" where
  "forEach f [] s = Inr s"
| "forEach f (x # xs) s = (case f x s of Inl e \<Rightarrow> Inl e | Inr s' \<Rightarrow> forEach f xs s')"

definition update :: "cls \<Rightarrow> elem \<Rightarrow> (error \<times> elem) + elem" where
  "update c s =
     (let s1 = render c s
      in case forEach (\<lambda>(propertyKey, oldValue) t. reflectProperty c propertyKey oldValue (props t propertyKey) t)
               (reflectingProperties s1) s1 of
           Inl e \<Rightarrow> Inl e
         | Inr s2 \<Rightarrow>
             (case forEach (\<lambda>(propertyKey, oldValue) t. notifyProperty c propertyKey oldValue (props t propertyKey) t)
                     (notifyingProperties s2) s2 of
                Inl e \<Rightarrow> Inl e
              | Inr s3 \<Rightarrow>
                  Inr ((updateCallback (changedProperties s3) (\<not> hasUpdated s3) s3)\<lparr> hasUpdated := True \<rparr>)))"

text \<open>\<open>watch\<close>, with the executor given by its body.\<close>

definition watch :: "cls \<Rightarrow> action list \<Rightarrow> elem \<Rightarrow> (error \<times> elem) + elem" where
  "watch c executor s =
     (let previousChanges = changedProperties s
      in case run (attributeChangedCallback c) c executor s of
           Inl e \<Rightarrow> Inl e
         | Inr s1 \<Rightarrow>
             forEach (\<lambda>(propertyKey, oldValue) t.
                        if \<not> map_has propertyKey previousChanges
                        then Inr (t\<lparr> notifyingProperties := map_set propertyKey oldValue (notifyingProperties t) \<rparr>)
                        else
                          (case hasChanged c propertyKey (map_get propertyKey previousChanges) oldValue of
                             Inl e \<Rightarrow> Inl (e, t)
                           | Inr True \<Rightarrow>
                               Inr (t\<lparr> notifyingProperties := map_set propertyKey oldValue (notifyingProperties t) \<rparr>)
                           | Inr False \<Rightarrow> Inr t))
               (changedProperties s1) s1)"

section \<open>The update scheduler: the deferred pass\<close>

text \<open>The callback that \<open>_scheduleUpdate\<close> hands to \<open>requestAnimationFrame\<close>.\<close>

definition priv_scheduleUpdate_callback :: "cls \<Rightarrow> elem \<Rightarrow> (error \<times> elem) + elem" where
  "priv_scheduleUpdate_callback c s =
     (case update c s of
        Inl e \<Rightarrow> Inl e
      | Inr s1 \<Rightarrow>
          Inr (s1\<lparr> changedProperties := [], reflectingProperties := [], notifyingProperties := [],
                   hasRequestedUpdate := False \<rparr>))"

definition promise_state :: "elem \<Rightarrow> nat \<Rightarrow> pstate" where
  "promise_state s p = (if p < length (promises s) then promises s ! p else Pending)"

text \<open>
  The continuations of \<open>_enqueueUpdate\<close> that the microtask queue resumes: after
  \<open>await previousRequest\<close> the pass is handed to the next frame; after \<open>await result\<close>
  the update request is resolved with \<open>!this._hasRequestedUpdate\<close>.
\<close>

fun resume_jobs :: "job list \<Rightarrow> elem \<Rightarrow> job list \<times> elem" where
  "resume_jobs [] s = ([], s)"
| "resume_jobs (AwaitPrevious prev p # js) s =
     (let (js', s') = resume_jobs js s
      in ((if promise_state s prev = Pending then AwaitPrevious prev p else AwaitFrame p) # js', s'))"
| "resume_jobs (AwaitFrame p # js) s = (let (js', s') = resume_jobs js s in (AwaitFrame p # js', s'))"
| "resume_jobs (AwaitResult p # js) s =
     resume_jobs js (s\<lparr> promises := (promises s)[p := Resolved (\<not> hasRequestedUpdate s)] \<rparr>)"

definition run_microtasks :: "elem \<Rightarrow> elem" where
  "run_microtasks s = (let (js, s') = resume_jobs (jobs s) s in s'\<lparr> jobs := js \<rparr>)"

text \<open>
  A frame of the host: every pass waiting for the frame runs its callback.  A callback
  that throws never resolves its promise, and its continuation is gone.
\<close>

fun run_frames :: "cls \<Rightarrow> job list \<Rightarrow> elem \<Rightarrow> elem" where
  "run_frames c [] s = s"
| "run_frames c (AwaitFrame p # js) s =
     (case priv_scheduleUpdate_callback c s of
        Inl (e, s') \<Rightarrow> run_frames c js s'
      | Inr s' \<Rightarrow> run_frames c js (s'\<lparr> jobs := jobs s' @ [AwaitResult p] \<rparr>))"
| "run_frames c (j # js) s = run_frames c js (s\<lparr> jobs := jobs s @ [j] \<rparr>)"

definition animation_frame :: "cls \<Rightarrow> elem \<Rightarrow> elem" where
  "animation_frame c s = run_frames c (jobs s) (s\<lparr> jobs := [] \<rparr>)"

text \<open>What happens to an element from outside, one event after the other.\<close>

datatype event =
    Write key jsval
  | Request "key option" jsval jsval
  | AttributeSet string string
  | AttributeRemoved string
  | Watch "action list"
  | Microtasks
  | Frame

definition after :: "(error \<times> elem) + elem \<Rightarrow> elem" where
  "after r = (case r of Inl (e, s) \<Rightarrow> s | Inr s \<Rightarrow> s)"

fun exec_event :: "cls \<Rightarrow> event \<Rightarrow> elem \<Rightarrow> elem" where
  "exec_event c (Write k v) s = after (set_property c k v s)"
| "exec_event c (Request k oldValue newValue) s =
     (case requestUpdate c k oldValue newValue s of Inl (e, s') \<Rightarrow> s' | Inr (p, s') \<Rightarrow> s')"
| "exec_event c (AttributeSet name v) s = after (setAttribute c name v s)"
| "exec_event c (AttributeRemoved name) s = after (removeAttribute c name s)"
| "exec_event c (Watch executor) s = after (watch c executor s)"
| "exec_event c Microtasks s = run_microtasks s"
| "exec_event c Frame s = animation_frame c s"

fun exec :: "cls \<Rightarrow> event list \<Rightarrow> elem \<Rightarrow> elem" where
  "exec c [] s = s"
| "exec c (ev # evs) s = exec c evs (exec_event c ev s)"

section \<open>Example classes\<close>

text \<open>
  A boolean property \<open>checked\<close> mirrored in the attribute of the same name (present as
  \<open>"true"\<close>, absent for \<open>false\<close>) and a number property \<open>count\<close> without an attribute,
  both with the default reflectors, notifier and change detector.
\<close>

definition checked_decl :: decl where
  "checked_decl = \<lparr> attribute = AttrName ''checked'',
     toAttribute = (\<lambda>v. Some (if v = JBool True then AString ''true'' else if v = JBool False then ANull else AUndefined)),
     fromAttribute = (\<lambda>a. Some (JBool (a \<noteq> None))),
     reflectAttribute_opt = Flag True, reflectProperty_opt = Flag True, notify = Flag True,
     observe = Detector ''DEFAULT_PROPERTY_CHANGE_DETECTOR'' DEFAULT_PROPERTY_CHANGE_DETECTOR \<rparr>"

definition count_decl :: decl where
  "count_decl = \<lparr> attribute = AttrFlag False,
     toAttribute = (\<lambda>v. Some AUndefined),
     fromAttribute = (\<lambda>a. Some (attr_val a)),
     reflectAttribute_opt = Flag True, reflectProperty_opt = Flag True, notify = Flag True,
     observe = Detector ''DEFAULT_PROPERTY_CHANGE_DETECTOR'' DEFAULT_PROPERTY_CHANGE_DETECTOR \<rparr>"

definition example_cls :: cls where
  "example_cls = \<lparr>
     attributes = (\<lambda>a. if a = ''checked'' then Some (KStr ''checked'') else None),
     properties = (\<lambda>k. if k = KStr ''checked'' then Some checked_decl
                        else if k = KStr ''count'' then Some count_decl else None),
     methods = (\<lambda>k. None),
     observedAttributes = [''checked''],
     template = (\<lambda>s. Some ''template'') \<rparr>"

text \<open>
  A class whose property \<open>a\<close> has a custom \<open>reflectAttribute\<close> function that throws,
  next to an unrelated property \<open>b\<close> with the defaults.
\<close>

definition throwing_decl :: decl where
  "throwing_decl = checked_decl \<lparr> attribute := AttrName ''a'',
     reflectAttribute_opt := Function ''boom'' (\<lambda>attributeName oldValue newValue s. [Throw]) \<rparr>"

definition throwing_cls :: cls where
  "throwing_cls = \<lparr>
     attributes = (\<lambda>a. if a = ''a'' then Some (KStr ''a'') else if a = ''b'' then Some (KStr ''b'') else None),
     properties = (\<lambda>k. if k = KStr ''a'' then Some throwing_decl
                        else if k = KStr ''b'' then Some (checked_decl \<lparr> attribute := AttrName ''b'' \<rparr>) else None),
     methods = (\<lambda>k. None),
     observedAttributes = [''a'', ''b''],
     template = (\<lambda>s. None) \<rparr>"

text \<open>A class that declares a property under the empty string.\<close>

definition empty_key_cls :: cls where
  "empty_key_cls = example_cls \<lparr> properties := (\<lambda>k. if k = KStr [] then Some count_decl else None) \<rparr>"

section \<open>Notions for the proofs\<close>

text \<open>The scheduler's side of the state.\<close>

definition sched :: "elem \<Rightarrow> bool \<times> nat \<times> pstate list \<times> job list" where
  "sched s = (hasRequestedUpdate s, updateRequest s, promises s, jobs s)"

text \<open>
  \<open>requested s s'\<close>: on the scheduler's side \<open>s'\<close> is \<open>s\<close>, or \<open>s\<close> after the one
  \<open>_enqueueUpdate\<close> that a request makes when no update is requested yet.
\<close>

definition requested :: "elem \<Rightarrow> elem \<Rightarrow> bool" where
  "requested s s' =
     (sched s' = sched s \<or> (\<not> hasRequestedUpdate s \<and> sched s' = sched (priv_enqueueUpdate s)))"

text \<open>What no handler body, reflector or notifier changes, whatever it does.\<close>

definition frame_step :: "elem \<Rightarrow> elem \<Rightarrow> bool" where
  "frame_step s s' =
     (hasUpdated s' = hasUpdated s \<and> isConnected s' = isConnected s
      \<and> notifyingProperties s' = notifyingProperties s
      \<and> (\<exists>xs. effects s' = effects s @ xs)
      \<and> requested s s'
      \<and> (distinct (map fst (changedProperties s)) \<longrightarrow> distinct (map fst (changedProperties s'))))"

text \<open>A pass that has been requested and has not run yet.\<close>

fun is_pending :: "job \<Rightarrow> bool" where
  "is_pending (AwaitPrevious q p) = True"
| "is_pending (AwaitFrame p) = True"
| "is_pending (AwaitResult p) = False"

definition pending_passes :: "elem \<Rightarrow> nat" where
  "pending_passes s = length (filter is_pending (jobs s))"

fun is_request :: "event \<Rightarrow> bool" where
  "is_request (Write k v) = True"
| "is_request (Request k oldValue newValue) = True"
| "is_request _ = False"

text \<open>The shapes the scheduler's side takes: idle, completing, requested (twice), waiting
  for the frame, and stuck after a pass that threw.\<close>

definition sched_inv :: "elem \<Rightarrow> bool" where
  "sched_inv s =
     (updateRequest s < length (promises s) \<and>
      ((\<not> hasRequestedUpdate s \<and> jobs s = [] \<and> promise_state s (updateRequest s) \<noteq> Pending)
       \<or> (\<not> hasRequestedUpdate s \<and> jobs s = [AwaitResult (updateRequest s)]
           \<and> promise_state s (updateRequest s) = Pending)
       \<or> (hasRequestedUpdate s \<and> promise_state s (updateRequest s) = Pending
           \<and> (\<exists>q. jobs s = [AwaitPrevious q (updateRequest s)] \<and> q < updateRequest s
                  \<and> promise_state s q \<noteq> Pending))
       \<or> (hasRequestedUpdate s \<and> promise_state s (updateRequest s) = Pending
           \<and> (\<exists>q. jobs s = [AwaitResult q, AwaitPrevious q (updateRequest s)] \<and> q < updateRequest s
                  \<and> promise_state s q = Pending))
       \<or> (hasRequestedUpdate s \<and> jobs s = [AwaitFrame (updateRequest s)]
           \<and> promise_state s (updateRequest s) = Pending)
       \<or> (hasRequestedUpdate s \<and> jobs s = [] \<and> promise_state s (updateRequest s) = Pending)))"

section \<open>Under the reflecting guard\<close>

lemma attributeChangedCallback_guarded:
  "isReflecting s \<Longrightarrow> attributeChangedCallback c a oldValue newValue s = Inr s"
  by (simp add: attributeChangedCallback_def)

lemma setAttribute_guarded:
  "isReflecting s \<Longrightarrow>
   setAttribute c name v s =
     Inr (s\<lparr> attrs := (attrs s)(name := Some v), effects := effects s @ [HostSetAttribute name v] \<rparr>)"
  by (simp add: setAttribute_def host_setAttribute_def attributeChangedCallback_def Let_def)

lemma removeAttribute_guarded:
  "isReflecting s \<Longrightarrow>
   removeAttribute c name s =
     Inr (s\<lparr> attrs := (attrs s)(name := None), effects := effects s @ [HostRemoveAttribute name] \<rparr>)"
  by (simp add: removeAttribute_def host_removeAttribute_def attributeChangedCallback_def Let_def)

section \<open>Requests\<close>


lemma requestUpdate_unchanged:
  "key_truthy k \<Longrightarrow> hasChanged c k oldValue newValue = Inr False \<Longrightarrow>
   requestUpdate c (Some k) oldValue newValue s = Inr (updateRequest s, s)"
  by (simp add: requestUpdate_def)

text \<open>
  C1, at the failing input.  The attribute \<open>a\<close> of a fresh element changes and the custom
  \<open>reflectAttribute\<close> function of its property throws: the attribute-changed callback throws
  the reflector error that names the function, and \<open>isReflecting\<close> is still set afterwards.
  A later write to the unrelated property \<open>b\<close> is recorded as changed, but is not entered
  into \<open>reflectingProperties\<close>: it will not be reflected.
\<close>

theorem throwing_attribute_reflector_keeps_guard:
  "attributeChangedCallback throwing_cls ''a'' None (Some ''x'') init_elem
     = Inl (AttributeReflectorError (FunctionName ''boom''), init_elem\<lparr> isReflecting := True \<rparr>)
   \<and> isReflecting (after (attributeChangedCallback throwing_cls ''a'' None (Some ''x'') init_elem))
   \<and> props (exec throwing_cls [AttributeSet ''a'' ''x'', Write (KStr ''b'') (JBool True)] init_elem) (KStr ''b'')
       = JBool True
   \<and> changedProperties (exec throwing_cls [AttributeSet ''a'' ''x'', Write (KStr ''b'') (JBool True)] init_elem)
       = [(KStr ''b'', Undefined)]
   \<and> reflectingProperties (exec throwing_cls [AttributeSet ''a'' ''x'', Write (KStr ''b'') (JBool True)] init_elem)
       = []"
  by (simp add: attributeChangedCallback_def reflectAttribute_def throwing_cls_def throwing_decl_def
      checked_decl_def init_elem_def priv_getPropertyDeclaration_def try_handler_def Let_def after_def
      setAttribute_def host_setAttribute_def
      set_property_def requestUpdate_def hasChanged_def DEFAULT_PROPERTY_CHANGE_DETECTOR_def strict_eq_def
      priv_enqueueUpdate_def)




text \<open>
  C7 as stated fails for a falsy key: a property declared under the empty string, with the
  default detector, and \<open>requestUpdate('', 1, 1)\<close> on a fresh element.  The detector reports
  no difference, yet a pass is scheduled and a new promise is handed out.
\<close>

theorem requestUpdate_falsy_key_counterexample:
  "hasChanged empty_key_cls (KStr []) (JNum 1) (JNum 1) = Inr False
   \<and> requestUpdate empty_key_cls (Some (KStr [])) (JNum 1) (JNum 1) init_elem
       = Inr (1, priv_enqueueUpdate init_elem)
   \<and> hasRequestedUpdate (priv_enqueueUpdate init_elem)
   \<and> jobs (priv_enqueueUpdate init_elem) = [AwaitPrevious 0 1]
   \<and> updateRequest (priv_enqueueUpdate init_elem) \<noteq> updateRequest init_elem"
  by (simp add: requestUpdate_def hasChanged_def priv_getPropertyDeclaration_def empty_key_cls_def
      example_cls_def count_decl_def DEFAULT_PROPERTY_CHANGE_DETECTOR_def strict_eq_def
      priv_enqueueUpdate_def init_elem_def Let_def)

text \<open>
  C7, amended.  For every truthy property key (any key but the empty string and \<open>0\<close>):
  when the change detector reports no difference, \<open>requestUpdate\<close> leaves the whole state
  as it is (no pass, no dirty set touched) and returns the current update request.
\<close>

theorem requestUpdate_unchanged_is_noop:
  assumes "key_truthy k" and "hasChanged c k oldValue newValue = Inr False"
  shows "requestUpdate c (Some k) oldValue newValue s = Inr (updateRequest s, s)"
  using assms by (rule requestUpdate_unchanged)

theorem requestUpdate_unchanged_is_noop_witness:
  "key_truthy (KStr ''count'')
   \<and> hasChanged example_cls (KStr ''count'') (JNum 1) (JNum 1) = Inr False
   \<and> requestUpdate example_cls (Some (KStr ''count'')) (JNum 1) (JNum 1) init_elem = Inr (0, init_elem)"
proof -
  have t: "key_truthy (KStr ''count'')" by simp
  have h: "hasChanged example_cls (KStr ''count'') (JNum 1) (JNum 1) = Inr False"
    by (simp add: hasChanged_def priv_getPropertyDeclaration_def example_cls_def count_decl_def
        DEFAULT_PROPERTY_CHANGE_DETECTOR_def strict_eq_def)
  show ?thesis
    using t h requestUpdate_unchanged_is_noop [OF t h, of init_elem]
    by (simp add: init_elem_def)
qed

text \<open>
  C10 as stated fails for a falsy key: \<open>requestUpdate(0)\<close> on a fresh element of a class
  that declares no property \<open>0\<close> schedules a pass, as the key-less call does.
\<close>

theorem requestUpdate_undeclared_falsy_key_counterexample:
  "properties example_cls (KNum 0) = None
   \<and> requestUpdate example_cls (Some (KNum 0)) Undefined Undefined init_elem
       = Inr (1, priv_enqueueUpdate init_elem)
   \<and> hasRequestedUpdate (priv_enqueueUpdate init_elem)
   \<and> jobs (priv_enqueueUpdate init_elem) = [AwaitPrevious 0 1]"
  by (simp add: requestUpdate_def example_cls_def priv_enqueueUpdate_def init_elem_def Let_def)

text \<open>
  C10, amended.  For a truthy key without a declaration, or whose declaration's \<open>observe\<close>
  is not a function, \<open>hasChanged\<close> is \<open>false\<close> and \<open>requestUpdate\<close> changes nothing and
  returns the current update request; the key-less call enqueues a pass when none is
  requested.
\<close>

theorem requestUpdate_unobserved_is_noop:
  assumes "key_truthy k"
    and "properties c k = None \<or> (\<exists>d b. properties c k = Some d \<and> observe d = ObserveFlag b)"
  shows "hasChanged c k oldValue newValue = Inr False
       \<and> requestUpdate c (Some k) oldValue newValue s = Inr (updateRequest s, s)
       \<and> (\<not> hasRequestedUpdate s \<longrightarrow>
            requestUpdate c None oldValue newValue s = Inr (length (promises s), priv_enqueueUpdate s))"
proof -
  have h: "hasChanged c k oldValue newValue = Inr False"
    using assms(2) by (auto simp: hasChanged_def priv_getPropertyDeclaration_def)
  have n: "\<not> hasRequestedUpdate s \<longrightarrow>
            requestUpdate c None oldValue newValue s = Inr (length (promises s), priv_enqueueUpdate s)"
    by (simp add: requestUpdate_def priv_enqueueUpdate_def Let_def)
  show ?thesis using h n requestUpdate_unchanged [OF assms(1) h] by simp
qed

theorem requestUpdate_unobserved_is_noop_witness:
  "key_truthy (KStr ''other'')
   \<and> properties example_cls (KStr ''other'') = None
   \<and> hasChanged example_cls (KStr ''other'') (JNum 1) (JNum 2) = Inr False
   \<and> requestUpdate example_cls (Some (KStr ''other'')) (JNum 1) (JNum 2) init_elem = Inr (0, init_elem)
   \<and> \<not> hasRequestedUpdate init_elem
   \<and> requestUpdate example_cls None (JNum 1) (JNum 2) init_elem = Inr (1, priv_enqueueUpdate init_elem)"
proof -
  have t: "key_truthy (KStr ''other'')" by simp
  have p: "properties example_cls (KStr ''other'') = None" by (simp add: example_cls_def)
  have q: "properties example_cls (KStr ''other'') = None
     \<or> (\<exists>d b. properties example_cls (KStr ''other'') = Some d \<and> observe d = ObserveFlag b)"
    using p by simp
  show ?thesis
    using t p requestUpdate_unobserved_is_noop [OF t q, of "JNum 1" "JNum 2" init_elem]
    by (simp add: init_elem_def)
qed

section \<open>What a step of the engine leaves alone\<close>

lemma requested_refl: "requested s s"
  by (simp add: requested_def)

lemma sched_enqueue_cong: "sched s = sched t \<Longrightarrow> sched (priv_enqueueUpdate s) = sched (priv_enqueueUpdate t)"
  by (simp add: sched_def priv_enqueueUpdate_def Let_def)

lemma requested_trans: "requested s t \<Longrightarrow> requested t u \<Longrightarrow> requested s u"
  unfolding requested_def
  by (auto dest: sched_enqueue_cong simp: sched_def priv_enqueueUpdate_def Let_def)

lemma frame_step_refl: "frame_step s s"
  by (simp add: frame_step_def requested_refl)

lemma frame_step_trans: "frame_step s t \<Longrightarrow> frame_step t u \<Longrightarrow> frame_step s u"
  unfolding frame_step_def
  by (auto intro: requested_trans)

lemma map_fst_map_set:
  "map fst (map_set k v m) = (if k \<in> set (map fst m) then map fst m else map fst m @ [k])"
  by (induction m) (auto simp: rev_image_eqI)

lemma distinct_map_set: "distinct (map fst m) \<Longrightarrow> distinct (map fst (map_set k v m))"
  by (simp add: map_fst_map_set)

lemma requestUpdate_frame:
  "requestUpdate c k oldValue newValue s = Inr (p, s') \<Longrightarrow> frame_step s s' \<and> isReflecting s' = isReflecting s \<and> props s' = props s \<and> attrs s' = attrs s"
  by (auto simp: requestUpdate_def frame_step_def requested_def sched_def priv_enqueueUpdate_def Let_def distinct_map_set
      split: option.splits if_splits sum.splits bool.splits)

lemma requestUpdate_error:
  "requestUpdate c k oldValue newValue s = Inl (e, s') \<Longrightarrow> s' = s"
  by (auto simp: requestUpdate_def Let_def split: option.splits if_splits sum.splits bool.splits)


lemma after_simps [simp]: "after (Inr s) = s" "after (Inl (e, s)) = s"
  by (simp_all add: after_def)

lemma set_property_frame:
  "frame_step s (after (set_property c k v s))" (is ?A)
  "isReflecting (after (set_property c k v s)) = isReflecting s" (is ?B)
  "attrs (after (set_property c k v s)) = attrs s" (is ?C)
proof -
  let ?s1 = "s\<lparr> props := (props s)(k := v) \<rparr>"
  have f1: "frame_step s ?s1"
    by (simp add: frame_step_def requested_def sched_def)
  have "?A \<and> ?B \<and> ?C"
  proof (cases "properties c k")
    case None
    then show ?thesis using f1 by (simp add: set_property_def)
  next
    case (Some d)
    show ?thesis
    proof (cases "requestUpdate c (Some k) (props s k) v ?s1")
      case (Inl es)
      then obtain e s' where es: "es = (e, s')" by (cases es)
      with Inl have "s' = ?s1" by (auto dest: requestUpdate_error)
      with Inl es Some f1 show ?thesis by (simp add: set_property_def Let_def)
    next
      case (Inr ps)
      then obtain p s' where ps: "ps = (p, s')" by (cases ps)
      with Inr have "frame_step ?s1 s' \<and> isReflecting s' = isReflecting ?s1 \<and> props s' = props ?s1 \<and> attrs s' = attrs ?s1"
        by (auto dest: requestUpdate_frame)
      with Inr ps Some f1 show ?thesis
        by (auto simp: set_property_def Let_def intro: frame_step_trans)
    qed
  qed
  then show ?A ?B ?C by simp_all
qed

lemma set_property_guard:
  "isReflecting s \<Longrightarrow> reflectingProperties (after (set_property c k v s)) = reflectingProperties s"
  by (auto simp: set_property_def requestUpdate_def priv_enqueueUpdate_def Let_def
      split: option.splits sum.splits bool.splits)


lemma store_frame:
  "frame_step s (s\<lparr> attrs := a, effects := effects s @ xs \<rparr>)"
  by (simp add: frame_step_def requested_def sched_def)

lemma host_setAttribute_frame:
  assumes "\<And>n ov nv t. frame_step t (after (cb n ov nv t))"
  shows "frame_step s (after (host_setAttribute cb c name v s))"
  using assms [of "s\<lparr> attrs := (attrs s)(name := Some v), effects := effects s @ [HostSetAttribute name v] \<rparr>"
        name "attrs s name" "Some v"]
  by (auto simp: host_setAttribute_def Let_def intro: frame_step_trans [OF store_frame] store_frame)

lemma host_removeAttribute_frame:
  assumes "\<And>n ov nv t. frame_step t (after (cb n ov nv t))"
  shows "frame_step s (after (host_removeAttribute cb c name s))"
  using assms [of "s\<lparr> attrs := (attrs s)(name := None), effects := effects s @ [HostRemoveAttribute name] \<rparr>"
        name "attrs s name" None]
  by (auto simp: host_removeAttribute_def Let_def intro: frame_step_trans [OF store_frame] store_frame)

lemma perform_frame:
  assumes "\<And>n ov nv t. frame_step t (after (cb n ov nv t))"
  shows "frame_step s (after (perform cb c a s))"
proof (cases a)
  case (SetProp k v) then show ?thesis by (simp add: set_property_frame)
next
  case (SetAttr n v)
  have "frame_step s (after (host_setAttribute cb c n v s))"
    by (rule host_setAttribute_frame) (rule assms)
  with SetAttr show ?thesis by simp
next
  case (RemoveAttr n)
  have "frame_step s (after (host_removeAttribute cb c n s))"
    by (rule host_removeAttribute_frame) (rule assms)
  with RemoveAttr show ?thesis by simp
next
  case (Dispatch n) then show ?thesis by (simp add: frame_step_def requested_def sched_def)
next
  case Throw then show ?thesis by (simp add: frame_step_refl)
qed

lemma run_frame:
  assumes "\<And>n ov nv t. frame_step t (after (cb n ov nv t))"
  shows "frame_step s (after (run cb c as s))"
proof (induction as arbitrary: s)
  case Nil then show ?case by (simp add: frame_step_refl)
next
  case (Cons a as)
  have pf: "frame_step s (after (perform cb c a s))"
    by (rule perform_frame) (rule assms)
  show ?case
  proof (cases "perform cb c a s")
    case (Inl es)
    with pf show ?thesis by simp
  next
    case (Inr s')
    with pf Cons.IH [of s'] show ?thesis
      by (auto intro: frame_step_trans)
  qed
qed

lemma guarded_callback_frame: "frame_step t (after (guarded_callback n ov nv t))"
  by (simp add: guarded_callback_def frame_step_refl)

lemma try_handler_after [simp]: "after (try_handler w r) = after r"
  by (auto simp: try_handler_def after_def split: sum.splits)

lemma flag_frame: "frame_step s (s\<lparr> isReflecting := b \<rparr>)"
  by (simp add: frame_step_def requested_def sched_def)

lemma frame_step_flag_right: "frame_step s t \<Longrightarrow> frame_step s (t\<lparr> isReflecting := b \<rparr>)"
  by (simp add: frame_step_def requested_def sched_def)

lemma frame_step_flag_left: "frame_step (s\<lparr> isReflecting := b \<rparr>) t \<Longrightarrow> frame_step s t"
  by (simp add: frame_step_def requested_def sched_def priv_enqueueUpdate_def Let_def)

lemma priv_reflectAttribute_frame: "frame_step s (after (priv_reflectAttribute c a ov nv s))"
  by (auto simp: priv_reflectAttribute_def frame_step_refl set_property_frame split: option.splits)

lemma guard_wrap_frame:
  "frame_step s (after r) \<Longrightarrow>
   frame_step s (after (case r of Inl e \<Rightarrow> Inl e | Inr s2 \<Rightarrow> Inr (s2\<lparr> isReflecting := b \<rparr>)))"
  by (cases r) (auto simp: frame_step_flag_right)

lemma reflectAttribute_frame: "frame_step s (after (reflectAttribute c a ov nv s))"
proof -
  have log: "frame_step s (s\<lparr> effects := effects s @ [ConsoleLog a] \<rparr>)"
    by (simp add: frame_step_def requested_def sched_def)
  have h: "frame_step s (after (run guarded_callback c as (s\<lparr> isReflecting := True \<rparr>)))" for as
    by (rule frame_step_flag_left [where b = True]) (rule run_frame [OF guarded_callback_frame])
  have d: "frame_step s (after (priv_reflectAttribute c a ov nv (s\<lparr> isReflecting := True \<rparr>)))"
    by (rule frame_step_flag_left [where b = True]) (rule priv_reflectAttribute_frame)
  have u: "frame_step s (s\<lparr> isReflecting := True \<rparr>)" by (rule flag_frame)
  show ?thesis
    unfolding reflectAttribute_def Let_def
    by (auto simp: frame_step_refl log h d u intro!: guard_wrap_frame split: option.split href.split)
qed

lemma attributeChangedCallback_frame: "frame_step s (after (attributeChangedCallback c a ov nv s))"
  by (simp add: attributeChangedCallback_def frame_step_refl reflectAttribute_frame)

lemma setAttribute_frame: "frame_step s (after (setAttribute c name v s))"
  unfolding setAttribute_def by (rule host_setAttribute_frame) (rule attributeChangedCallback_frame)

lemma removeAttribute_frame: "frame_step s (after (removeAttribute c name s))"
  unfolding removeAttribute_def by (rule host_removeAttribute_frame) (rule attributeChangedCallback_frame)

lemma run_callback_frame: "frame_step s (after (run (attributeChangedCallback c) c as s))"
  by (rule run_frame) (rule attributeChangedCallback_frame)


subsection \<open>The guard\<close>

lemma perform_guarded_keeps:
  assumes "isReflecting s"
  shows "isReflecting (after (perform guarded_callback c a s))
       \<and> reflectingProperties (after (perform guarded_callback c a s)) = reflectingProperties s"
  using assms
  by (cases a) (simp_all add: set_property_frame set_property_guard host_setAttribute_def
      host_removeAttribute_def guarded_callback_def Let_def)

lemma run_guarded_keeps:
  "isReflecting s \<Longrightarrow>
   isReflecting (after (run guarded_callback c as s))
   \<and> reflectingProperties (after (run guarded_callback c as s)) = reflectingProperties s"
proof (induction as arbitrary: s)
  case Nil then show ?case by simp
next
  case (Cons a as)
  note k = perform_guarded_keeps [OF Cons.prems, of c a]
  show ?case
  proof (cases "perform guarded_callback c a s")
    case (Inl es) with k show ?thesis by simp
  next
    case (Inr s') with k Cons.IH [of s'] show ?thesis by simp
  qed
qed

lemma perform_callback_guarded:
  "isReflecting s \<Longrightarrow> perform (attributeChangedCallback c) c a s = perform guarded_callback c a s"
  by (cases a) (simp_all add: host_setAttribute_def host_removeAttribute_def guarded_callback_def
      attributeChangedCallback_def Let_def)

lemma run_callback_guarded:
  "isReflecting s \<Longrightarrow> run (attributeChangedCallback c) c as s = run guarded_callback c as s"
proof (induction as arbitrary: s)
  case Nil then show ?case by simp
next
  case (Cons a as)
  note k = perform_guarded_keeps [OF Cons.prems, of c a]
  show ?case
  proof (cases "perform guarded_callback c a s")
    case (Inl es) with Cons.prems show ?thesis by (simp add: perform_callback_guarded)
  next
    case (Inr s') with k Cons.prems Cons.IH [of s'] show ?thesis by (simp add: perform_callback_guarded)
  qed
qed

lemma guard_wrap_reflecting:
  "reflectingProperties (after r) = m \<Longrightarrow>
   reflectingProperties (after (case r of Inl e \<Rightarrow> Inl e | Inr s2 \<Rightarrow> Inr (s2\<lparr> isReflecting := b \<rparr>))) = m"
  by (cases r) auto

lemma priv_reflectAttribute_reflecting:
  "isReflecting s \<Longrightarrow> reflectingProperties (after (priv_reflectAttribute c a ov nv s)) = reflectingProperties s"
  by (auto simp: priv_reflectAttribute_def set_property_guard split: option.splits)

lemma reflectAttribute_reflecting:
  "reflectingProperties (after (reflectAttribute c a ov nv s)) = reflectingProperties s"
proof -
  have h: "reflectingProperties (after (run guarded_callback c as (s\<lparr> isReflecting := True \<rparr>)))
             = reflectingProperties s" for as
    using run_guarded_keeps [of "s\<lparr> isReflecting := True \<rparr>" c as] by simp
  have d: "reflectingProperties (after (priv_reflectAttribute c a ov nv (s\<lparr> isReflecting := True \<rparr>)))
             = reflectingProperties s"
    using priv_reflectAttribute_reflecting [of "s\<lparr> isReflecting := True \<rparr>"] by simp
  show ?thesis
    unfolding reflectAttribute_def Let_def
    by (auto simp: h d intro!: guard_wrap_reflecting split: option.split href.split)
qed

lemma attributeChangedCallback_reflecting:
  "reflectingProperties (after (attributeChangedCallback c a ov nv s)) = reflectingProperties s"
  by (simp add: attributeChangedCallback_def reflectAttribute_reflecting)

text \<open>
  The guard after \<open>reflectAttribute\<close> with a custom function: cleared when the function
  returns, still set when it throws.
\<close>

lemma reflectAttribute_function_guard:
  assumes "attributes c a = Some k" and "key_truthy k" and "priv_getPropertyDeclaration c k = Some d"
    and "reflectAttribute_opt d = Function name h"
  shows "case reflectAttribute c a ov nv s of
           Inl (e, s') \<Rightarrow> e = AttributeReflectorError (FunctionName name) \<and> isReflecting s'
         | Inr s' \<Rightarrow> \<not> isReflecting s'"
proof -
  let ?s1 = "s\<lparr> isReflecting := True \<rparr>"
  let ?r = "run guarded_callback c (h (JStr a) (attr_val ov) (attr_val nv) ?s1) ?s1"
  have g: "isReflecting (after ?r)"
    using run_guarded_keeps [of ?s1 c "h (JStr a) (attr_val ov) (attr_val nv) ?s1"] by simp
  show ?thesis
  proof (cases ?r)
    case (Inl es)
    then obtain e s' where "es = (e, s')" by (cases es)
    with Inl g assms show ?thesis
      by (simp add: reflectAttribute_def Let_def try_handler_def)
  next
    case (Inr s')
    with assms show ?thesis
      by (simp add: reflectAttribute_def Let_def try_handler_def)
  qed
qed

subsection \<open>Property reflection and notification\<close>

lemma priv_reflectProperty_frame: "frame_step s (after (priv_reflectProperty c k ov nv s))"
  by (auto simp: priv_reflectProperty_def Let_def frame_step_refl setAttribute_frame removeAttribute_frame
      split: option.split attr_result.split)

lemma reflectProperty_frame: "frame_step s (after (reflectProperty c k ov nv s))"
proof -
  have h: "frame_step s (after (run (attributeChangedCallback c) c as (s\<lparr> isReflecting := True \<rparr>)))" for as
    by (rule frame_step_flag_left [where b = True]) (rule run_callback_frame)
  have d: "frame_step s (after (priv_reflectProperty c k ov nv (s\<lparr> isReflecting := True \<rparr>)))"
    by (rule frame_step_flag_left [where b = True]) (rule priv_reflectProperty_frame)
  have u: "frame_step s (s\<lparr> isReflecting := True \<rparr>)" by (rule flag_frame)
  show ?thesis
    unfolding reflectProperty_def Let_def
    by (auto simp: frame_step_refl h d u intro!: guard_wrap_frame split: option.split href.split)
qed

lemma notifyProperty_frame: "frame_step s (after (notifyProperty c k ov nv s))"
proof -
  have e: "frame_step s (priv_notifyProperty k ov nv s)"
    by (simp add: priv_notifyProperty_def dispatchEvent_def frame_step_def requested_def sched_def)
  show ?thesis
    unfolding notifyProperty_def
    by (auto simp: frame_step_refl run_callback_frame e split: option.split href.split)
qed

lemma forEach_frame:
  assumes "\<And>x t. frame_step t (after (f x t))"
  shows "frame_step s (after (forEach f xs s))"
proof (induction xs arbitrary: s)
  case Nil then show ?case by (simp add: frame_step_refl)
next
  case (Cons x xs)
  show ?case
  proof (cases "f x s")
    case (Inl es) with assms [of s x] show ?thesis by simp
  next
    case (Inr s') with assms [of s x] Cons.IH [of s'] show ?thesis by (auto intro: frame_step_trans)
  qed
qed

text \<open>
  The map that \<open>update\<close> traverses is not changed by the calls made for its entries, so
  that going through the entries found at the start is what \<open>forEach\<close> does.
\<close>

lemma priv_reflectProperty_reflecting:
  "reflectingProperties (after (priv_reflectProperty c k ov nv s)) = reflectingProperties s"
proof -
  have "reflectingProperties (after (host_setAttribute (attributeChangedCallback c) c n v s)) = reflectingProperties s" for n v
    using attributeChangedCallback_reflecting
      [of c n "attrs s n" "Some v" "s\<lparr> attrs := (attrs s)(n := Some v), effects := effects s @ [HostSetAttribute n v] \<rparr>"]
    by (simp add: host_setAttribute_def Let_def)
  moreover have "reflectingProperties (after (host_removeAttribute (attributeChangedCallback c) c n s)) = reflectingProperties s" for n
    using attributeChangedCallback_reflecting
      [of c n "attrs s n" None "s\<lparr> attrs := (attrs s)(n := None), effects := effects s @ [HostRemoveAttribute n] \<rparr>"]
    by (simp add: host_removeAttribute_def Let_def)
  ultimately show ?thesis
    by (simp add: priv_reflectProperty_def Let_def setAttribute_def removeAttribute_def
        split: option.split attr_result.split)
qed

lemma reflectProperty_reflecting:
  "reflectingProperties (after (reflectProperty c k ov nv s)) = reflectingProperties s"
proof -
  have g: "isReflecting (s\<lparr> isReflecting := True \<rparr>)" by simp
  have h: "reflectingProperties (after (run (attributeChangedCallback c) c as (s\<lparr> isReflecting := True \<rparr>)))
             = reflectingProperties s" for as
    using run_guarded_keeps [OF g, of c as] by (simp add: run_callback_guarded [OF g])
  have d: "reflectingProperties (after (priv_reflectProperty c k ov nv (s\<lparr> isReflecting := True \<rparr>)))
             = reflectingProperties s"
    by (simp add: priv_reflectProperty_reflecting)
  show ?thesis
    unfolding reflectProperty_def Let_def
    by (auto simp: h d intro!: guard_wrap_reflecting split: option.split href.split)
qed

lemma notifyProperty_notifying:
  "notifyingProperties (after (notifyProperty c k ov nv s)) = notifyingProperties s"
  using notifyProperty_frame [of s c k ov nv] by (simp add: frame_step_def)

section \<open>Reflection without feedback\<close>

lemma priv_reflectProperty_guarded:
  assumes "priv_getPropertyDeclaration c k = Some d" and "isReflecting s"
  shows "priv_reflectProperty c k oldValue newValue s =
     (if \<not> attr_opt_truthy (attribute d) then Inr s
      else case toAttribute d newValue of
             None \<Rightarrow> Inl (UncaughtError, s)
           | Some AUndefined \<Rightarrow> Inr s
           | Some ANull \<Rightarrow>
               Inr (s\<lparr> attrs := (attrs s)(attr_opt_name (attribute d) := None),
                       effects := effects s @ [HostRemoveAttribute (attr_opt_name (attribute d))] \<rparr>)
           | Some (AString v) \<Rightarrow>
               Inr (s\<lparr> attrs := (attrs s)(attr_opt_name (attribute d) := Some v),
                       effects := effects s @ [HostSetAttribute (attr_opt_name (attribute d)) v] \<rparr>))"
  using assms
  by (simp add: priv_reflectProperty_def setAttribute_guarded removeAttribute_guarded Let_def
      split: option.split attr_result.split)

lemma reflectProperty_default:
  assumes "priv_getPropertyDeclaration c k = Some d" and "reflectProperty_opt d = Flag True"
  shows "reflectProperty c k oldValue newValue s =
     (if \<not> attr_opt_truthy (attribute d) then Inr (s\<lparr> isReflecting := False \<rparr>)
      else case toAttribute d newValue of
             None \<Rightarrow> Inl (UncaughtError, s\<lparr> isReflecting := True \<rparr>)
           | Some AUndefined \<Rightarrow> Inr (s\<lparr> isReflecting := False \<rparr>)
           | Some ANull \<Rightarrow>
               Inr (s\<lparr> attrs := (attrs s)(attr_opt_name (attribute d) := None),
                       effects := effects s @ [HostRemoveAttribute (attr_opt_name (attribute d))],
                       isReflecting := False \<rparr>)
           | Some (AString v) \<Rightarrow>
               Inr (s\<lparr> attrs := (attrs s)(attr_opt_name (attribute d) := Some v),
                       effects := effects s @ [HostSetAttribute (attr_opt_name (attribute d)) v],
                       isReflecting := False \<rparr>))"
proof -
  have g: "isReflecting (s\<lparr> isReflecting := True \<rparr>)" by simp
  show ?thesis
    using assms
    by (simp add: reflectProperty_def Let_def priv_reflectProperty_guarded [OF assms(1) g]
        split: option.split attr_result.split)
qed

lemma reflectProperty_default_touches:
  assumes "priv_getPropertyDeclaration c k = Some d" and "reflectProperty_opt d = Flag True"
  shows "(after (reflectProperty c k oldValue newValue s))
           \<lparr> attrs := attrs s, effects := effects s, isReflecting := isReflecting s \<rparr> = s"
proof (cases "toAttribute d newValue")
  case None
  then show ?thesis by (simp add: reflectProperty_default [OF assms])
next
  case (Some r)
  then show ?thesis by (cases r) (simp_all add: reflectProperty_default [OF assms])
qed

lemma attributeChangedCallback_default_writes:
  assumes "attributes c a = Some k" and "key_truthy k" and "priv_getPropertyDeclaration c k = Some d"
    and "reflectAttribute_opt d = Flag True" and "fromAttribute d nv = Some pv"
    and "\<not> isReflecting s" and "ov \<noteq> nv"
  shows "props (after (attributeChangedCallback c a ov nv s)) k = pv"
proof -
  have p: "props (after (set_property c k pv t)) k = pv" for t
    by (auto simp: set_property_def Let_def dest!: requestUpdate_frame requestUpdate_error
        split: option.splits sum.splits prod.splits)
  have "props (after (case set_property c k pv t of Inl e \<Rightarrow> Inl e | Inr s2 \<Rightarrow> Inr (s2\<lparr> isReflecting := False \<rparr>))) k = pv" for t
    using p [of t] by (cases "set_property c k pv t") auto
  with assms show ?thesis
    by (simp add: attributeChangedCallback_def reflectAttribute_def priv_reflectAttribute_def Let_def)
qed

text \<open>
  C9.  The default property reflector \<open>_reflectProperty\<close> of a declared property, called
  with the reflecting guard set, and \<open>reflectProperty\<close> when the declaration selects the
  default reflector (\<open>reflectProperty: true\<close>), which sets the guard, calls it and clears
  the guard: nothing happens when the \<open>attribute\<close> option is falsy; otherwise
  \<open>toAttribute(newValue)\<close> is computed, and the attribute is left as it is when the result
  is \<open>undefined\<close>, removed when it is \<open>null\<close>, and set to the string otherwise.
\<close>

theorem default_property_reflector:
  assumes "priv_getPropertyDeclaration c k = Some d"
  shows "(isReflecting s \<longrightarrow>
          priv_reflectProperty c k oldValue newValue s =
           (if \<not> attr_opt_truthy (attribute d) then Inr s
            else case toAttribute d newValue of
                   None \<Rightarrow> Inl (UncaughtError, s)
                 | Some AUndefined \<Rightarrow> Inr s
                 | Some ANull \<Rightarrow>
                     Inr (s\<lparr> attrs := (attrs s)(attr_opt_name (attribute d) := None),
                             effects := effects s @ [HostRemoveAttribute (attr_opt_name (attribute d))] \<rparr>)
                 | Some (AString v) \<Rightarrow>
                     Inr (s\<lparr> attrs := (attrs s)(attr_opt_name (attribute d) := Some v),
                             effects := effects s @ [HostSetAttribute (attr_opt_name (attribute d)) v] \<rparr>)))
     \<and> (reflectProperty_opt d = Flag True \<longrightarrow>
          reflectProperty c k oldValue newValue t =
           (if \<not> attr_opt_truthy (attribute d) then Inr (t\<lparr> isReflecting := False \<rparr>)
            else case toAttribute d newValue of
                   None \<Rightarrow> Inl (UncaughtError, t\<lparr> isReflecting := True \<rparr>)
                 | Some AUndefined \<Rightarrow> Inr (t\<lparr> isReflecting := False \<rparr>)
                 | Some ANull \<Rightarrow>
                     Inr (t\<lparr> attrs := (attrs t)(attr_opt_name (attribute d) := None),
                             effects := effects t @ [HostRemoveAttribute (attr_opt_name (attribute d))],
                             isReflecting := False \<rparr>)
                 | Some (AString v) \<Rightarrow>
                     Inr (t\<lparr> attrs := (attrs t)(attr_opt_name (attribute d) := Some v),
                             effects := effects t @ [HostSetAttribute (attr_opt_name (attribute d)) v],
                             isReflecting := False \<rparr>)))"
proof (intro conjI impI)
  assume "isReflecting s"
  with assms show "priv_reflectProperty c k oldValue newValue s =
           (if \<not> attr_opt_truthy (attribute d) then Inr s
            else case toAttribute d newValue of
                   None \<Rightarrow> Inl (UncaughtError, s)
                 | Some AUndefined \<Rightarrow> Inr s
                 | Some ANull \<Rightarrow>
                     Inr (s\<lparr> attrs := (attrs s)(attr_opt_name (attribute d) := None),
                             effects := effects s @ [HostRemoveAttribute (attr_opt_name (attribute d))] \<rparr>)
                 | Some (AString v) \<Rightarrow>
                     Inr (s\<lparr> attrs := (attrs s)(attr_opt_name (attribute d) := Some v),
                             effects := effects s @ [HostSetAttribute (attr_opt_name (attribute d)) v] \<rparr>))"
    by (rule priv_reflectProperty_guarded)
next
  assume "reflectProperty_opt d = Flag True"
  with assms show "reflectProperty c k oldValue newValue t =
           (if \<not> attr_opt_truthy (attribute d) then Inr (t\<lparr> isReflecting := False \<rparr>)
            else case toAttribute d newValue of
                   None \<Rightarrow> Inl (UncaughtError, t\<lparr> isReflecting := True \<rparr>)
                 | Some AUndefined \<Rightarrow> Inr (t\<lparr> isReflecting := False \<rparr>)
                 | Some ANull \<Rightarrow>
                     Inr (t\<lparr> attrs := (attrs t)(attr_opt_name (attribute d) := None),
                             effects := effects t @ [HostRemoveAttribute (attr_opt_name (attribute d))],
                             isReflecting := False \<rparr>)
                 | Some (AString v) \<Rightarrow>
                     Inr (t\<lparr> attrs := (attrs t)(attr_opt_name (attribute d) := Some v),
                             effects := effects t @ [HostSetAttribute (attr_opt_name (attribute d)) v],
                             isReflecting := False \<rparr>))"
    by (rule reflectProperty_default)
qed

theorem default_property_reflector_witness:
  "priv_getPropertyDeclaration example_cls (KStr ''checked'') = Some checked_decl
   \<and> isReflecting (init_elem\<lparr> isReflecting := True \<rparr>)
   \<and> reflectProperty_opt checked_decl = Flag True
   \<and> priv_reflectProperty example_cls (KStr ''checked'') (JBool False) (JBool True) (init_elem\<lparr> isReflecting := True \<rparr>)
       = Inr (init_elem\<lparr> isReflecting := True, attrs := (attrs init_elem)(''checked'' := Some ''true''),
                effects := [HostSetAttribute ''checked'' ''true''] \<rparr>)
   \<and> attrs (after (reflectProperty example_cls (KStr ''checked'') (JBool True) (JBool False)
               (init_elem\<lparr> attrs := (\<lambda>a. Some ''true'') \<rparr>))) ''checked'' = None
   \<and> reflectProperty example_cls (KStr ''checked'') (JBool True) Undefined init_elem = Inr init_elem
   \<and> reflectProperty example_cls (KStr ''count'') (JNum 0) (JNum 1) init_elem = Inr init_elem"
proof -
  have d: "priv_getPropertyDeclaration example_cls (KStr ''checked'') = Some checked_decl"
    by (simp add: priv_getPropertyDeclaration_def example_cls_def)
  have d2: "priv_getPropertyDeclaration example_cls (KStr ''count'') = Some count_decl"
    by (simp add: priv_getPropertyDeclaration_def example_cls_def)
  have g: "isReflecting (init_elem\<lparr> isReflecting := True \<rparr>)" by simp
  have f: "reflectProperty_opt checked_decl = Flag True" "reflectProperty_opt count_decl = Flag True"
    by (simp_all add: checked_decl_def count_decl_def)
  have i: "init_elem\<lparr> isReflecting := False \<rparr> = init_elem" "effects init_elem = []"
    by (simp_all add: init_elem_def)
  show ?thesis
    using d g f
      default_property_reflector [OF d, where s = "init_elem\<lparr> isReflecting := True \<rparr>"
        and oldValue = "JBool False" and newValue = "JBool True"]
      default_property_reflector [OF d, where t = "init_elem\<lparr> attrs := (\<lambda>a. Some ''true'') \<rparr>"
        and oldValue = "JBool True" and newValue = "JBool False"]
      default_property_reflector [OF d, where t = init_elem and oldValue = "JBool True" and newValue = Undefined]
      default_property_reflector [OF d2, where t = init_elem and oldValue = "JNum 0" and newValue = "JNum 1"]
    by (simp add: checked_decl_def count_decl_def i)
qed

text \<open>
  C4.  For a declared property with the default property reflector: the attribute-changed
  callback does nothing while \<open>isReflecting\<close> is set; reflecting the property touches the
  attributes, the host's log and the guard only, so the property, its pending changes and the
  schedule stay as they are although the host has called the attribute-changed callback; if
  \<open>toAttribute\<close> gives a string, the attribute is set to it.  In the other direction an
  attribute change never adds to \<open>reflectingProperties\<close>, and with the default attribute
  reflector it does write the property.
\<close>

theorem no_reflection_feedback:
  assumes "priv_getPropertyDeclaration c k = Some d" and "reflectProperty_opt d = Flag True"
  shows "(isReflecting t \<longrightarrow> attributeChangedCallback c a ov nv t = Inr t)
    \<and> (after (reflectProperty c k oldValue newValue s))
           \<lparr> attrs := attrs s, effects := effects s, isReflecting := isReflecting s \<rparr> = s
    \<and> (attr_opt_truthy (attribute d) \<and> toAttribute d newValue = Some (AString x) \<longrightarrow>
          reflectProperty c k oldValue newValue s =
            Inr (s\<lparr> attrs := (attrs s)(attr_opt_name (attribute d) := Some x),
                    effects := effects s @ [HostSetAttribute (attr_opt_name (attribute d)) x],
                    isReflecting := False \<rparr>))
    \<and> reflectingProperties (after (attributeChangedCallback c a ov nv s)) = reflectingProperties s
    \<and> (attributes c a = Some k \<and> key_truthy k \<and> reflectAttribute_opt d = Flag True
          \<and> fromAttribute d nv = Some pv \<and> \<not> isReflecting s \<and> ov \<noteq> nv \<longrightarrow>
          props (after (attributeChangedCallback c a ov nv s)) k = pv)"
proof (intro conjI)
  show "isReflecting t \<longrightarrow> attributeChangedCallback c a ov nv t = Inr t"
    by (simp add: attributeChangedCallback_guarded)
  show "(after (reflectProperty c k oldValue newValue s))
           \<lparr> attrs := attrs s, effects := effects s, isReflecting := isReflecting s \<rparr> = s"
    by (rule reflectProperty_default_touches [OF assms])
  show "attr_opt_truthy (attribute d) \<and> toAttribute d newValue = Some (AString x) \<longrightarrow>
          reflectProperty c k oldValue newValue s =
            Inr (s\<lparr> attrs := (attrs s)(attr_opt_name (attribute d) := Some x),
                    effects := effects s @ [HostSetAttribute (attr_opt_name (attribute d)) x],
                    isReflecting := False \<rparr>)"
    by (simp add: reflectProperty_default [OF assms])
  show "reflectingProperties (after (attributeChangedCallback c a ov nv s)) = reflectingProperties s"
    by (rule attributeChangedCallback_reflecting)
  show "attributes c a = Some k \<and> key_truthy k \<and> reflectAttribute_opt d = Flag True
          \<and> fromAttribute d nv = Some pv \<and> \<not> isReflecting s \<and> ov \<noteq> nv \<longrightarrow>
          props (after (attributeChangedCallback c a ov nv s)) k = pv"
    using assms(1) by (auto intro: attributeChangedCallback_default_writes)
qed

theorem no_reflection_feedback_witness:
  "priv_getPropertyDeclaration example_cls (KStr ''checked'') = Some checked_decl
   \<and> reflectProperty_opt checked_decl = Flag True
   \<and> isReflecting (init_elem\<lparr> isReflecting := True \<rparr>)
   \<and> attributeChangedCallback example_cls ''checked'' None (Some ''true'') (init_elem\<lparr> isReflecting := True \<rparr>)
        = Inr (init_elem\<lparr> isReflecting := True \<rparr>)
   \<and> attr_opt_truthy (attribute checked_decl) \<and> toAttribute checked_decl (JBool True) = Some (AString ''true'')
   \<and> ''checked'' \<in> set (observedAttributes example_cls)
   \<and> reflectProperty example_cls (KStr ''checked'') (JBool False) (JBool True) init_elem
        = Inr (init_elem\<lparr> attrs := (attrs init_elem)(''checked'' := Some ''true''),
                 effects := [HostSetAttribute ''checked'' ''true''] \<rparr>)
   \<and> attributes example_cls ''checked'' = Some (KStr ''checked'') \<and> key_truthy (KStr ''checked'')
   \<and> reflectAttribute_opt checked_decl = Flag True \<and> fromAttribute checked_decl (Some ''true'') = Some (JBool True)
   \<and> \<not> isReflecting init_elem \<and> None \<noteq> Some ''true''
   \<and> props (after (attributeChangedCallback example_cls ''checked'' None (Some ''true'') init_elem)) (KStr ''checked'')
        = JBool True
   \<and> reflectingProperties (after (attributeChangedCallback example_cls ''checked'' None (Some ''true'') init_elem)) = []"
proof -
  have d: "priv_getPropertyDeclaration example_cls (KStr ''checked'') = Some checked_decl"
    by (simp add: priv_getPropertyDeclaration_def example_cls_def)
  have f: "reflectProperty_opt checked_decl = Flag True" by (simp add: checked_decl_def)
  have a: "attributes example_cls ''checked'' = Some (KStr ''checked'')" by (simp add: example_cls_def)
  have o: "''checked'' \<in> set (observedAttributes example_cls)" by (simp add: example_cls_def)
  have c: "attr_opt_truthy (attribute checked_decl) \<and> toAttribute checked_decl (JBool True) = Some (AString ''true'')
     \<and> reflectAttribute_opt checked_decl = Flag True \<and> fromAttribute checked_decl (Some ''true'') = Some (JBool True)
     \<and> attr_opt_name (attribute checked_decl) = ''checked''"
    by (simp add: checked_decl_def)
  have i: "\<not> isReflecting init_elem \<and> effects init_elem = [] \<and> reflectingProperties init_elem = []"
    by (simp add: init_elem_def)
  have e: "init_elem\<lparr> attrs := (attrs init_elem)(''checked'' := Some ''true''),
                 effects := [HostSetAttribute ''checked'' ''true''], isReflecting := False \<rparr>
         = init_elem\<lparr> attrs := (attrs init_elem)(''checked'' := Some ''true''),
                 effects := [HostSetAttribute ''checked'' ''true''] \<rparr>"
    by (simp add: init_elem_def)
  show ?thesis
    using d f a o c i
      no_reflection_feedback [OF d f, where t = "init_elem\<lparr> isReflecting := True \<rparr>" and a = "''checked''"
        and ov = None and nv = "Some ''true''" and oldValue = "JBool False" and newValue = "JBool True"
        and s = init_elem and x = "''true''" and pv = "JBool True"]
    by (simp add: e)
qed

section \<open>Watching an executor\<close>






section \<open>The order of an update pass\<close>

lemma render_effects:
  "render c s = s\<lparr> effects := effects s @ (case template c s of None \<Rightarrow> [] | Some t \<Rightarrow> [LitRender t]) \<rparr>"
  by (simp add: render_def split: option.split)

lemma reflect_loop_frame:
  "frame_step s (after (forEach (\<lambda>(propertyKey, oldValue) t. reflectProperty c propertyKey oldValue (props t propertyKey) t) xs s))"
  by (rule forEach_frame) (auto simp: reflectProperty_frame)

lemma notify_loop_frame:
  "frame_step s (after (forEach (\<lambda>(propertyKey, oldValue) t. notifyProperty c propertyKey oldValue (props t propertyKey) t) xs s))"
  by (rule forEach_frame) (auto simp: notifyProperty_frame)

text \<open>
  C6.  A pass in which no reflector and no notifier throws: the template is rendered
  (whatever the dirty sets hold), then the reflector of every entry of
  \<open>reflectingProperties\<close> runs, then the notifier of every entry of \<open>notifyingProperties\<close>,
  then the update callback is called with \<open>changedProperties\<close> and the first-update flag,
  and at the end the three dirty sets are empty and \<open>hasRequestedUpdate\<close> is false.  The
  calls into the host appear in that order.
\<close>

theorem update_pass_order:
  assumes "priv_scheduleUpdate_callback c s = Inr s'"
  shows "\<exists>s2 s3 rs ns.
       forEach (\<lambda>(propertyKey, oldValue) t. reflectProperty c propertyKey oldValue (props t propertyKey) t)
         (reflectingProperties s) (render c s) = Inr s2
     \<and> forEach (\<lambda>(propertyKey, oldValue) t. notifyProperty c propertyKey oldValue (props t propertyKey) t)
         (notifyingProperties s) s2 = Inr s3
     \<and> s' = (updateCallback (changedProperties s3) (\<not> hasUpdated s) s3)
              \<lparr> hasUpdated := True, changedProperties := [], reflectingProperties := [],
                notifyingProperties := [], hasRequestedUpdate := False \<rparr>
     \<and> effects (render c s) = effects s @ (case template c s of None \<Rightarrow> [] | Some t \<Rightarrow> [LitRender t])
     \<and> effects s2 = effects (render c s) @ rs
     \<and> effects s3 = effects s2 @ ns
     \<and> effects s' = effects s3 @ [DispatchEvent (Lifecycle ''update'' (Some (\<not> hasUpdated s)))]"
proof -
  let ?s1 = "render c s"
  let ?reflect = "\<lambda>(propertyKey, oldValue) t. reflectProperty c propertyKey oldValue (props t propertyKey) t"
  let ?notify = "\<lambda>(propertyKey, oldValue) t. notifyProperty c propertyKey oldValue (props t propertyKey) t"
  have r1: "reflectingProperties ?s1 = reflectingProperties s" "notifyingProperties ?s1 = notifyingProperties s"
    "hasUpdated ?s1 = hasUpdated s"
    by (simp_all add: render_effects)
  from assms obtain s2 where s2: "forEach ?reflect (reflectingProperties ?s1) ?s1 = Inr s2"
    by (auto simp: priv_scheduleUpdate_callback_def update_def Let_def split: sum.splits)
  with assms obtain s3 where s3: "forEach ?notify (notifyingProperties s2) s2 = Inr s3"
    by (auto simp: priv_scheduleUpdate_callback_def update_def Let_def split: sum.splits)
  have f2: "frame_step ?s1 s2" using reflect_loop_frame [of ?s1 c "reflectingProperties ?s1"] s2 by simp
  have f3: "frame_step s2 s3" using notify_loop_frame [of s2 c "notifyingProperties s2"] s3 by simp
  from f2 r1 have n2: "notifyingProperties s2 = notifyingProperties s" and u2: "hasUpdated s2 = hasUpdated s"
    by (simp_all add: frame_step_def)
  from f3 u2 have u3: "hasUpdated s3 = hasUpdated s" by (simp add: frame_step_def)
  from f2 obtain rs where rs: "effects s2 = effects ?s1 @ rs" by (auto simp: frame_step_def)
  from f3 obtain ns where ns: "effects s3 = effects s2 @ ns" by (auto simp: frame_step_def)
  have s': "s' = (updateCallback (changedProperties s3) (\<not> hasUpdated s) s3)
              \<lparr> hasUpdated := True, changedProperties := [], reflectingProperties := [],
                notifyingProperties := [], hasRequestedUpdate := False \<rparr>"
    using assms s2 s3 u3 by (simp add: priv_scheduleUpdate_callback_def update_def Let_def)
  have e': "effects s' = effects s3 @ [DispatchEvent (Lifecycle ''update'' (Some (\<not> hasUpdated s)))]"
    by (simp add: s' updateCallback_def priv_notifyLifecycle_def dispatchEvent_def)
  have e1: "effects ?s1 = effects s @ (case template c s of None \<Rightarrow> [] | Some t \<Rightarrow> [LitRender t])"
    by (simp add: render_effects)
  from s2 s3 s' e1 rs ns e' show ?thesis
    unfolding r1 n2 by blast
qed


lemma example_pass:
  "priv_scheduleUpdate_callback example_cls
     (init_elem\<lparr> props := (\<lambda>k. JBool True),
        changedProperties := [(KStr ''checked'', JBool False)],
        reflectingProperties := [(KStr ''checked'', JBool False)],
        notifyingProperties := [(KStr ''checked'', JBool False)],
        hasRequestedUpdate := True \<rparr>)
   = Inr (init_elem\<lparr> props := (\<lambda>k. JBool True),
        attrs := (\<lambda>a. if a = ''checked'' then Some ''true'' else None),
        effects := [LitRender ''template'', HostSetAttribute ''checked'' ''true'',
                    DispatchEvent (PropertyChanged (KStr ''checked'') (JBool False) (JBool True)),
                    DispatchEvent (Lifecycle ''update'' (Some True))],
        hasUpdated := True \<rparr>)"
  by (simp add: priv_scheduleUpdate_callback_def update_def render_def reflectProperty_def
      priv_reflectProperty_def notifyProperty_def priv_notifyProperty_def updateCallback_def
      priv_notifyLifecycle_def dispatchEvent_def setAttribute_def host_setAttribute_def
      attributeChangedCallback_def priv_getPropertyDeclaration_def
      example_cls_def checked_decl_def init_elem_def Let_def fun_eq_iff)

theorem update_pass_order_witness:
  "priv_scheduleUpdate_callback example_cls
     (init_elem\<lparr> props := (\<lambda>k. JBool True),
        changedProperties := [(KStr ''checked'', JBool False)],
        reflectingProperties := [(KStr ''checked'', JBool False)],
        notifyingProperties := [(KStr ''checked'', JBool False)],
        hasRequestedUpdate := True \<rparr>)
   = Inr (init_elem\<lparr> props := (\<lambda>k. JBool True),
        attrs := (\<lambda>a. if a = ''checked'' then Some ''true'' else None),
        effects := [LitRender ''template'', HostSetAttribute ''checked'' ''true'',
                    DispatchEvent (PropertyChanged (KStr ''checked'') (JBool False) (JBool True)),
                    DispatchEvent (Lifecycle ''update'' (Some True))],
        hasUpdated := True \<rparr>)
   \<and> (\<exists>s2 s3. forEach (\<lambda>(propertyKey, oldValue) t. reflectProperty example_cls propertyKey oldValue (props t propertyKey) t)
            [(KStr ''checked'', JBool False)]
            (render example_cls (init_elem\<lparr> props := (\<lambda>k. JBool True),
                changedProperties := [(KStr ''checked'', JBool False)],
                reflectingProperties := [(KStr ''checked'', JBool False)],
                notifyingProperties := [(KStr ''checked'', JBool False)],
                hasRequestedUpdate := True \<rparr>)) = Inr s2
          \<and> forEach (\<lambda>(propertyKey, oldValue) t. notifyProperty example_cls propertyKey oldValue (props t propertyKey) t)
            [(KStr ''checked'', JBool False)] s2 = Inr s3
          \<and> effects s2 = [LitRender ''template'', HostSetAttribute ''checked'' ''true'']
          \<and> effects s3 = [LitRender ''template'', HostSetAttribute ''checked'' ''true'',
                DispatchEvent (PropertyChanged (KStr ''checked'') (JBool False) (JBool True))])"
proof -
  let ?s = "init_elem\<lparr> props := (\<lambda>k. JBool True),
        changedProperties := [(KStr ''checked'', JBool False)],
        reflectingProperties := [(KStr ''checked'', JBool False)],
        notifyingProperties := [(KStr ''checked'', JBool False)],
        hasRequestedUpdate := True \<rparr>"
  note p = example_pass
  from update_pass_order [OF p] obtain s2 s3 where
    a: "forEach (\<lambda>(propertyKey, oldValue) t. reflectProperty example_cls propertyKey oldValue (props t propertyKey) t)
         (reflectingProperties ?s) (render example_cls ?s) = Inr s2"
    and b: "forEach (\<lambda>(propertyKey, oldValue) t. notifyProperty example_cls propertyKey oldValue (props t propertyKey) t)
         (notifyingProperties ?s) s2 = Inr s3"
    by blast
  have a': "forEach (\<lambda>(propertyKey, oldValue) t. reflectProperty example_cls propertyKey oldValue (props t propertyKey) t)
         [(KStr ''checked'', JBool False)] (render example_cls ?s) = Inr s2"
    using a by simp
  have b': "forEach (\<lambda>(propertyKey, oldValue) t. notifyProperty example_cls propertyKey oldValue (props t propertyKey) t)
         [(KStr ''checked'', JBool False)] s2 = Inr s3"
    using b by simp
  have e2: "effects s2 = [LitRender ''template'', HostSetAttribute ''checked'' ''true'']"
    using a'
    by (auto simp: render_def reflectProperty_def priv_reflectProperty_def setAttribute_def host_setAttribute_def
      attributeChangedCallback_def priv_getPropertyDeclaration_def
      example_cls_def checked_decl_def init_elem_def Let_def)
  have e3: "effects s3 = [LitRender ''template'', HostSetAttribute ''checked'' ''true'',
                DispatchEvent (PropertyChanged (KStr ''checked'') (JBool False) (JBool True))]"
    using a' b'
    by (auto simp: render_def reflectProperty_def priv_reflectProperty_def setAttribute_def host_setAttribute_def
      attributeChangedCallback_def priv_getPropertyDeclaration_def notifyProperty_def priv_notifyProperty_def
      dispatchEvent_def example_cls_def checked_decl_def init_elem_def Let_def)
  from p a' b' e2 e3 show ?thesis by blast
qed

section \<open>The shapes of the schedule\<close>

lemma sched_inv_cong: "sched s = sched t \<Longrightarrow> sched_inv s = sched_inv t"
  by (simp add: sched_def sched_inv_def promise_state_def)

lemma promise_state_append:
  "promise_state (s\<lparr> promises := promises s @ [Pending] \<rparr>) p = promise_state s p"
  by (auto simp: promise_state_def nth_append)

lemma sched_inv_enqueue:
  assumes "sched_inv s" and "\<not> hasRequestedUpdate s"
  shows "sched_inv (priv_enqueueUpdate s)"
proof -
  have ps: "promise_state (priv_enqueueUpdate s) p = promise_state s p" for p
    by (auto simp: promise_state_def priv_enqueueUpdate_def Let_def nth_append)
  have new: "promise_state s (length (promises s)) = Pending"
    by (simp add: promise_state_def)
  have flds: "hasRequestedUpdate (priv_enqueueUpdate s)" "updateRequest (priv_enqueueUpdate s) = length (promises s)"
    "jobs (priv_enqueueUpdate s) = jobs s @ [AwaitPrevious (updateRequest s) (length (promises s))]"
    "length (promises (priv_enqueueUpdate s)) = Suc (length (promises s))"
    by (simp_all add: priv_enqueueUpdate_def Let_def)
  from assms show ?thesis
    by (auto simp: sched_inv_def flds ps new)
qed

lemma sched_inv_requested: "sched_inv s \<Longrightarrow> requested s s' \<Longrightarrow> sched_inv s'"
  unfolding requested_def
  using sched_inv_cong [of s' s] sched_inv_cong [of s' "priv_enqueueUpdate s"] sched_inv_enqueue [of s]
  by auto


lemma frame_step_requested: "frame_step s s' \<Longrightarrow> requested s s'"
  by (simp add: frame_step_def)

lemma requested_sched: "sched s' = sched s \<Longrightarrow> requested s s'"
  by (simp add: requested_def)

lemma requested_sched_right: "requested s t \<Longrightarrow> sched t' = sched t \<Longrightarrow> requested s t'"
  by (simp add: requested_def)

lemma requested_sched_left: "requested s t \<Longrightarrow> sched s' = sched s \<Longrightarrow> requested s' t"
  by (auto simp add: requested_def sched_def priv_enqueueUpdate_def Let_def)

lemma forEach_sched:
  assumes "\<And>x t. sched (after (f x t)) = sched t"
  shows "sched (after (forEach f xs s)) = sched s"
proof (induction xs arbitrary: s)
  case Nil then show ?case by simp
next
  case (Cons x xs)
  show ?case
  proof (cases "f x s")
    case (Inl es) with assms [of x s] show ?thesis by simp
  next
    case (Inr s') with assms [of x s] Cons.IH [of s'] show ?thesis by simp
  qed
qed

lemma watch_requested: "requested s (after (watch c executor s))"
proof (cases "run (attributeChangedCallback c) c executor s")
  case (Inl es)
  with run_callback_frame [of s c executor] show ?thesis
    by (simp add: watch_def Let_def frame_step_requested)
next
  case (Inr s1)
  let ?f = "(\<lambda>(propertyKey, oldValue) t.
                        if \<not> map_has propertyKey (changedProperties s)
                        then Inr (t\<lparr> notifyingProperties := map_set propertyKey oldValue (notifyingProperties t) \<rparr>)
                        else
                          (case hasChanged c propertyKey (map_get propertyKey (changedProperties s)) oldValue of
                             Inl e \<Rightarrow> Inl (e, t)
                           | Inr True \<Rightarrow>
                               Inr (t\<lparr> notifyingProperties := map_set propertyKey oldValue (notifyingProperties t) \<rparr>)
                           | Inr False \<Rightarrow> Inr t))"
  have "sched (after (?f x t)) = sched t" for x t
    by (cases x) (auto simp: sched_def split: sum.splits bool.splits)
  then have "sched (after (forEach ?f (changedProperties s1) s1)) = sched s1"
    by (rule forEach_sched)
  moreover have "requested s s1"
    using run_callback_frame [of s c executor] Inr by (simp add: frame_step_requested)
  ultimately show ?thesis
    using Inr by (simp add: watch_def Let_def requested_sched_right)
qed

lemma exec_event_requested:
  assumes "ev \<noteq> Microtasks" and "ev \<noteq> Frame"
  shows "requested s (exec_event c ev s)"
proof (cases ev)
  case (Write k v)
  then show ?thesis by (simp add: set_property_frame frame_step_requested)
next
  case (Request k ov nv)
  show ?thesis
  proof (cases "requestUpdate c k ov nv s")
    case (Inl es)
    then obtain e s' where "es = (e, s')" by (cases es)
    with Inl Request show ?thesis by (auto dest: requestUpdate_error simp: requested_refl)
  next
    case (Inr ps)
    then obtain p s' where "ps = (p, s')" by (cases ps)
    with Inr Request show ?thesis by (auto dest: requestUpdate_frame simp: frame_step_requested)
  qed
next
  case (AttributeSet n v)
  then show ?thesis by (simp add: setAttribute_frame frame_step_requested)
next
  case (AttributeRemoved n)
  then show ?thesis by (simp add: removeAttribute_frame frame_step_requested)
next
  case (Watch ex)
  then show ?thesis by (simp add: watch_requested)
next
  case Microtasks with assms show ?thesis by simp
next
  case Frame with assms show ?thesis by simp
qed

lemma update_requested: "requested s (after (update c s))"
proof -
  let ?s1 = "render c s"
  let ?reflect = "\<lambda>(propertyKey, oldValue) t. reflectProperty c propertyKey oldValue (props t propertyKey) t"
  let ?notify = "\<lambda>(propertyKey, oldValue) t. notifyProperty c propertyKey oldValue (props t propertyKey) t"
  have s1: "sched ?s1 = sched s" by (simp add: render_effects sched_def)
  have r2: "requested ?s1 (after (forEach ?reflect (reflectingProperties ?s1) ?s1))"
    by (rule frame_step_requested) (rule reflect_loop_frame)
  show ?thesis
  proof (cases "forEach ?reflect (reflectingProperties ?s1) ?s1")
    case (Inl es)
    with r2 s1 show ?thesis by (simp add: update_def Let_def requested_sched_left)
  next
    case (Inr s2)
    have r3: "requested s2 (after (forEach ?notify (notifyingProperties s2) s2))"
      by (rule frame_step_requested) (rule notify_loop_frame)
    from r2 Inr s1 have a: "requested s s2" by (simp add: requested_sched_left)
    show ?thesis
    proof (cases "forEach ?notify (notifyingProperties s2) s2")
      case (Inl es)
      with Inr r3 a show ?thesis by (auto simp: update_def Let_def intro: requested_trans)
    next
      case (Inr s3)
      with r3 a have b: "requested s s3" by (auto intro: requested_trans)
      have "sched ((updateCallback (changedProperties s3) (\<not> hasUpdated s3) s3)\<lparr> hasUpdated := True \<rparr>) = sched s3"
        by (simp add: sched_def updateCallback_def priv_notifyLifecycle_def dispatchEvent_def)
      with b Inr \<open>forEach ?reflect (reflectingProperties ?s1) ?s1 = Inr s2\<close> show ?thesis
        by (simp add: update_def Let_def requested_sched_right)
    qed
  qed
qed


subsection \<open>Microtasks and frames\<close>

lemma sched_inv_run_microtasks: "sched_inv s \<Longrightarrow> sched_inv (run_microtasks s)"
  unfolding sched_inv_def
  by (elim conjE disjE exE)
     (auto simp: run_microtasks_def promise_state_def nth_list_update)

lemma run_frames_no_frame:
  "\<forall>p. AwaitFrame p \<notin> set js \<Longrightarrow> run_frames c js t = t\<lparr> jobs := jobs t @ js \<rparr>"
proof (induction js arbitrary: t)
  case Nil then show ?case by simp
next
  case (Cons j js)
  then have nf: "\<forall>p. AwaitFrame p \<notin> set js" and nj: "\<forall>p. j \<noteq> AwaitFrame p" by auto
  from nj Cons.IH [OF nf] show ?case by (cases j) simp_all
qed

lemma animation_frame_no_frame:
  "\<forall>p. AwaitFrame p \<notin> set (jobs s) \<Longrightarrow> animation_frame c s = s"
  by (simp add: animation_frame_def run_frames_no_frame)

lemma animation_frame_one:
  "jobs s = [AwaitFrame p] \<Longrightarrow>
   animation_frame c s =
     (case priv_scheduleUpdate_callback c (s\<lparr> jobs := [] \<rparr>) of
        Inl (e, s') \<Rightarrow> s'
      | Inr s' \<Rightarrow> s'\<lparr> jobs := jobs s' @ [AwaitResult p] \<rparr>)"
  by (simp add: animation_frame_def split: sum.split prod.split)

lemma update_sched_requested:
  "hasRequestedUpdate t \<Longrightarrow> sched (after (update c t)) = sched t"
  using update_requested [of t c] by (simp add: requested_def)

lemma callback_sched:
  assumes "hasRequestedUpdate t"
  shows "(case priv_scheduleUpdate_callback c t of
            Inl (e, s') \<Rightarrow> sched s' = sched t
          | Inr s' \<Rightarrow> sched s' = (False, updateRequest t, promises t, jobs t))"
proof (cases "update c t")
  case (Inl es)
  then obtain e s' where "es = (e, s')" by (cases es)
  with Inl update_sched_requested [OF assms, of c] show ?thesis
    by (simp add: priv_scheduleUpdate_callback_def)
next
  case (Inr s1)
  with update_sched_requested [OF assms, of c] show ?thesis
    by (simp add: priv_scheduleUpdate_callback_def sched_def)
qed

lemma sched_inv_animation_frame: "sched_inv s \<Longrightarrow> sched_inv (animation_frame c s)"
proof (cases "\<forall>p. AwaitFrame p \<notin> set (jobs s)")
  case True
  assume "sched_inv s"
  with True show ?thesis by (simp add: animation_frame_no_frame)
next
  case False
  assume inv: "sched_inv s"
  with False have j: "jobs s = [AwaitFrame (updateRequest s)]" and f: "hasRequestedUpdate s"
    and p: "promise_state s (updateRequest s) = Pending" and l: "updateRequest s < length (promises s)"
    by (auto simp: sched_inv_def)
  let ?t = "s\<lparr> jobs := [] \<rparr>"
  have ft: "hasRequestedUpdate ?t" using f by simp
  note cs = callback_sched [OF ft, of c]
  show ?thesis
  proof (cases "priv_scheduleUpdate_callback c ?t")
    case (Inl es)
    then obtain e s' where es: "es = (e, s')" by (cases es)
    with Inl cs have "sched s' = sched ?t" by simp
    with f p l have "sched_inv s'"
      by (simp add: sched_inv_def sched_def promise_state_def)
    with Inl es j show ?thesis by (simp add: animation_frame_one)
  next
    case (Inr s')
    with cs have "sched s' = (False, updateRequest ?t, promises ?t, jobs ?t)" by simp
    with f p l have "sched_inv (s'\<lparr> jobs := jobs s' @ [AwaitResult (updateRequest s)] \<rparr>)"
      by (simp add: sched_inv_def sched_def promise_state_def)
    with Inr j show ?thesis by (simp add: animation_frame_one)
  qed
qed

lemma sched_inv_init: "sched_inv init_elem"
  by (simp add: sched_inv_def init_elem_def promise_state_def)

lemma sched_inv_exec_event: "sched_inv s \<Longrightarrow> sched_inv (exec_event c ev s)"
proof (cases "ev = Microtasks \<or> ev = Frame")
  case True
  assume "sched_inv s"
  with True show ?thesis by (auto simp: sched_inv_run_microtasks sched_inv_animation_frame)
next
  case False
  assume "sched_inv s"
  with False exec_event_requested [of ev s c] show ?thesis by (auto intro: sched_inv_requested)
qed

lemma sched_inv_exec: "sched_inv s \<Longrightarrow> sched_inv (exec c evs s)"
  by (induction evs arbitrary: s) (simp_all add: sched_inv_exec_event)

lemma sched_inv_reachable: "sched_inv (exec c evs init_elem)"
  by (rule sched_inv_exec) (rule sched_inv_init)

section \<open>At most one pending pass\<close>

lemma sched_inv_pending:
  "sched_inv s \<Longrightarrow> pending_passes s \<le> 1 \<and> (\<not> hasRequestedUpdate s \<longrightarrow> pending_passes s = 0)"
  by (auto simp: sched_inv_def pending_passes_def)

lemma requestUpdate_coalesces:
  assumes "hasRequestedUpdate s"
  shows "case requestUpdate c k oldValue newValue s of
           Inl (e, s') \<Rightarrow> s' = s
         | Inr (p, s') \<Rightarrow> p = updateRequest s \<and> jobs s' = jobs s \<and> promises s' = promises s
              \<and> updateRequest s' = updateRequest s \<and> hasRequestedUpdate s'"
  using assms
  by (auto simp: requestUpdate_def Let_def split: option.splits sum.splits bool.splits)

lemma flag_kept:
  assumes "hasRequestedUpdate s" and "ev \<noteq> Frame"
  shows "hasRequestedUpdate (exec_event c ev s)"
proof (cases "ev = Microtasks")
  case True
  have "hasRequestedUpdate (snd (resume_jobs js t)) = hasRequestedUpdate t" for js t
    by (induction js t rule: resume_jobs.induct) (auto split: prod.splits)
  with assms(1) True show ?thesis
    by (simp add: run_microtasks_def split: prod.splits) (metis snd_conv)
next
  case False
  with assms exec_event_requested [of ev s c] show ?thesis
    by (auto simp: requested_def sched_def)
qed

lemma frame_resets_flag:
  assumes "sched_inv s" and "hasRequestedUpdate s" and "\<not> hasRequestedUpdate (exec_event c Frame s)"
  shows "jobs s = [AwaitFrame (updateRequest s)]
       \<and> (\<exists>t. priv_scheduleUpdate_callback c (s\<lparr> jobs := [] \<rparr>) = Inr t)"
proof -
  have nf: "\<not> (\<forall>p. AwaitFrame p \<notin> set (jobs s))"
  proof
    assume "\<forall>p. AwaitFrame p \<notin> set (jobs s)"
    then have "animation_frame c s = s" by (rule animation_frame_no_frame)
    with assms(2,3) show False by simp
  qed
  with assms(1) have j: "jobs s = [AwaitFrame (updateRequest s)]"
    by (auto simp: sched_inv_def)
  have ft: "hasRequestedUpdate (s\<lparr> jobs := [] \<rparr>)" using assms(2) by simp
  note cs = callback_sched [OF ft, of c]
  show ?thesis
  proof (cases "priv_scheduleUpdate_callback c (s\<lparr> jobs := [] \<rparr>)")
    case (Inl es)
    then obtain e s' where "es = (e, s')" by (cases es)
    with Inl cs assms(2,3) j show ?thesis
      by (simp add: animation_frame_one sched_def)
  next
    case (Inr t)
    with j show ?thesis by simp
  qed
qed

lemma exec_requests_requested:
  "\<forall>r \<in> set reqs. is_request r \<Longrightarrow> requested s (exec c reqs s)"
proof (induction reqs arbitrary: s)
  case Nil then show ?case by (simp add: requested_refl)
next
  case (Cons r reqs)
  then have "is_request r" by simp
  then have "r \<noteq> Microtasks" "r \<noteq> Frame" by auto
  then have "requested s (exec_event c r s)" by (rule exec_event_requested)
  moreover have "requested (exec_event c r s) (exec c reqs (exec_event c r s))"
    using Cons by simp
  ultimately show ?case by (auto intro: requested_trans)
qed

lemma exec_append: "exec c (xs @ ys) s = exec c ys (exec c xs s)"
  by (induction xs arbitrary: s) simp_all

lemma requests_make_one_pass:
  assumes inv: "sched_inv s" and idle: "\<not> hasRequestedUpdate s"
    and reqs: "\<forall>r \<in> set reqs. is_request r" and flag: "hasRequestedUpdate (exec c reqs s)"
  shows "jobs (exec c reqs s) = jobs s @ [AwaitPrevious (updateRequest s) (length (promises s))]"
    and "pending_passes (exec c reqs s) = 1"
    and "jobs (exec c (reqs @ [Microtasks]) s) = [AwaitFrame (length (promises s))]"
    and "pending_passes (exec c (reqs @ [Microtasks, Frame]) s) = 0"
proof -
  let ?s' = "exec c reqs s"
  from exec_requests_requested [OF reqs, of s c] idle flag
  have sch: "sched ?s' = sched (priv_enqueueUpdate s)"
    by (auto simp: requested_def sched_def)
  then show j: "jobs ?s' = jobs s @ [AwaitPrevious (updateRequest s) (length (promises s))]"
    by (simp add: sched_def priv_enqueueUpdate_def Let_def)
  from inv idle have shape: "(jobs s = [] \<and> promise_state s (updateRequest s) \<noteq> Pending)
      \<or> (jobs s = [AwaitResult (updateRequest s)] \<and> promise_state s (updateRequest s) = Pending)"
    and l: "updateRequest s < length (promises s)"
    by (auto simp: sched_inv_def)
  from shape j show "pending_passes ?s' = 1" by (auto simp: pending_passes_def)
  from sch have p': "promises ?s' = promises s @ [Pending]" and f': "hasRequestedUpdate ?s'"
    and u': "updateRequest ?s' = length (promises s)"
    by (simp_all add: sched_def priv_enqueueUpdate_def Let_def)
  have m: "jobs (run_microtasks ?s') = [AwaitFrame (length (promises s))]"
    using shape l j p'
    by (auto simp: run_microtasks_def promise_state_def nth_append nth_list_update)
  then show "jobs (exec c (reqs @ [Microtasks]) s) = [AwaitFrame (length (promises s))]"
    by (simp add: exec_append)
  let ?m = "run_microtasks ?s'"
  have "hasRequestedUpdate (exec_event c Microtasks ?s')"
    using f' by (rule flag_kept) simp
  then have ft: "hasRequestedUpdate (?m\<lparr> jobs := [] \<rparr>)" by simp
  note cs = callback_sched [OF ft, of c]
  have "pending_passes (animation_frame c ?m) = 0"
  proof (cases "priv_scheduleUpdate_callback c (?m\<lparr> jobs := [] \<rparr>)")
    case (Inl es)
    then obtain e b where "es = (e, b)" by (cases es)
    with Inl cs m show ?thesis
      by (simp add: animation_frame_one pending_passes_def sched_def)
  next
    case (Inr x)
    with cs m show ?thesis
      by (simp add: animation_frame_one pending_passes_def sched_def)
  qed
  then show "pending_passes (exec c (reqs @ [Microtasks, Frame]) s) = 0"
    by (simp add: exec_append)
qed


text \<open>
  C2.  In every state \<open>s\<close> an element reaches from its creation, whatever happens to it:
  at most one pass is pending, and none unless \<open>hasRequestedUpdate\<close> is set; while the flag
  is set a request enqueues nothing and hands out the promise of the pass already
  scheduled; the flag stays set through every event but a frame, and a frame resets it
  only by running that pass to its end.  Requests made while no update is requested, one
  of which gets as far as the scheduler, leave exactly one pass pending; the microtasks
  hand exactly one callback to the next frame, and after the frame no pass is pending.
\<close>

theorem at_most_one_pending_pass:
  assumes "s = exec c evs init_elem"
  shows "pending_passes s \<le> 1
     \<and> (\<not> hasRequestedUpdate s \<longrightarrow> pending_passes s = 0)
     \<and> (hasRequestedUpdate s \<longrightarrow>
          (case requestUpdate c k oldValue newValue s of
             Inl (e, s') \<Rightarrow> s' = s
           | Inr (p, s') \<Rightarrow> p = updateRequest s \<and> jobs s' = jobs s \<and> promises s' = promises s
                \<and> updateRequest s' = updateRequest s \<and> hasRequestedUpdate s'))
     \<and> (hasRequestedUpdate s \<and> ev \<noteq> Frame \<longrightarrow> hasRequestedUpdate (exec_event c ev s))
     \<and> (hasRequestedUpdate s \<and> \<not> hasRequestedUpdate (exec_event c Frame s) \<longrightarrow>
          jobs s = [AwaitFrame (updateRequest s)]
          \<and> (\<exists>t. priv_scheduleUpdate_callback c (s\<lparr> jobs := [] \<rparr>) = Inr t))
     \<and> (\<not> hasRequestedUpdate s \<and> (\<forall>r \<in> set reqs. is_request r) \<and> hasRequestedUpdate (exec c reqs s) \<longrightarrow>
          pending_passes (exec c reqs s) = 1
          \<and> jobs (exec c (reqs @ [Microtasks]) s) = [AwaitFrame (length (promises s))]
          \<and> pending_passes (exec c (reqs @ [Microtasks, Frame]) s) = 0)"
proof -
  have inv: "sched_inv s" unfolding assms by (rule sched_inv_reachable)
  show ?thesis
  proof (intro conjI impI)
    show "pending_passes s \<le> 1" using sched_inv_pending [OF inv] by simp
    show "pending_passes s = 0" if "\<not> hasRequestedUpdate s"
      using sched_inv_pending [OF inv] that by simp
    show "case requestUpdate c k oldValue newValue s of
             Inl (e, s') \<Rightarrow> s' = s
           | Inr (p, s') \<Rightarrow> p = updateRequest s \<and> jobs s' = jobs s \<and> promises s' = promises s
                \<and> updateRequest s' = updateRequest s \<and> hasRequestedUpdate s'"
      if "hasRequestedUpdate s"
      using that by (rule requestUpdate_coalesces)
    show "hasRequestedUpdate (exec_event c ev s)" if "hasRequestedUpdate s \<and> ev \<noteq> Frame"
      using that by (auto intro: flag_kept)
    show "jobs s = [AwaitFrame (updateRequest s)]"
      if "hasRequestedUpdate s \<and> \<not> hasRequestedUpdate (exec_event c Frame s)"
      using frame_resets_flag [OF inv, of c] that by simp
    show "\<exists>t. priv_scheduleUpdate_callback c (s\<lparr> jobs := [] \<rparr>) = Inr t"
      if "hasRequestedUpdate s \<and> \<not> hasRequestedUpdate (exec_event c Frame s)"
      using frame_resets_flag [OF inv, of c] that by simp
    show "pending_passes (exec c reqs s) = 1"
      if "\<not> hasRequestedUpdate s \<and> (\<forall>r \<in> set reqs. is_request r) \<and> hasRequestedUpdate (exec c reqs s)"
      using requests_make_one_pass(2) [OF inv, of reqs c] that by simp
    show "jobs (exec c (reqs @ [Microtasks]) s) = [AwaitFrame (length (promises s))]"
      if "\<not> hasRequestedUpdate s \<and> (\<forall>r \<in> set reqs. is_request r) \<and> hasRequestedUpdate (exec c reqs s)"
      using requests_make_one_pass(3) [OF inv, of reqs c] that by simp
    show "pending_passes (exec c (reqs @ [Microtasks, Frame]) s) = 0"
      if "\<not> hasRequestedUpdate s \<and> (\<forall>r \<in> set reqs. is_request r) \<and> hasRequestedUpdate (exec c reqs s)"
      using requests_make_one_pass(4) [OF inv, of reqs c] that by simp
  qed
qed

lemmas example_eval =
  example_cls_def count_decl_def checked_decl_def init_elem_def after_def
  set_property_def requestUpdate_def hasChanged_def priv_getPropertyDeclaration_def
  DEFAULT_PROPERTY_CHANGE_DETECTOR_def strict_eq_def priv_enqueueUpdate_def Let_def
  run_microtasks_def promise_state_def animation_frame_def priv_scheduleUpdate_callback_def
  update_def render_def reflectProperty_def priv_reflectProperty_def notifyProperty_def
  priv_notifyProperty_def updateCallback_def priv_notifyLifecycle_def dispatchEvent_def
  pending_passes_def

theorem at_most_one_pending_pass_witness:
  "init_elem = exec example_cls [] init_elem
   \<and> \<not> hasRequestedUpdate init_elem
   \<and> is_request (Write (KStr ''count'') (JNum 5)) \<and> is_request (Write (KStr ''count'') (JNum 7))
   \<and> hasRequestedUpdate (exec example_cls [Write (KStr ''count'') (JNum 5), Write (KStr ''count'') (JNum 7)] init_elem)
   \<and> pending_passes (exec example_cls [Write (KStr ''count'') (JNum 5), Write (KStr ''count'') (JNum 7)] init_elem) = 1
   \<and> jobs (exec example_cls ([Write (KStr ''count'') (JNum 5), Write (KStr ''count'') (JNum 7)] @ [Microtasks]) init_elem)
        = [AwaitFrame 1]
   \<and> pending_passes (exec example_cls ([Write (KStr ''count'') (JNum 5), Write (KStr ''count'') (JNum 7)]
          @ [Microtasks, Frame]) init_elem) = 0
   \<and> hasRequestedUpdate (exec example_cls [Write (KStr ''count'') (JNum 5), Microtasks] init_elem)
   \<and> Microtasks \<noteq> Frame
   \<and> hasRequestedUpdate (exec_event example_cls Microtasks (exec example_cls [Write (KStr ''count'') (JNum 5), Microtasks] init_elem))
   \<and> \<not> hasRequestedUpdate (exec_event example_cls Frame (exec example_cls [Write (KStr ''count'') (JNum 5), Microtasks] init_elem))
   \<and> jobs (exec example_cls [Write (KStr ''count'') (JNum 5), Microtasks] init_elem) = [AwaitFrame 1]
   \<and> (case requestUpdate example_cls (Some (KStr ''count'')) (JNum 5) (JNum 7)
              (exec example_cls [Write (KStr ''count'') (JNum 5), Microtasks] init_elem) of
         Inl (e, s') \<Rightarrow> False
       | Inr (p, s') \<Rightarrow> p = 1 \<and> jobs s' = [AwaitFrame 1])"
proof -
  let ?w = "[Write (KStr ''count'') (JNum 5), Write (KStr ''count'') (JNum 7)]"
  let ?s = "exec example_cls [Write (KStr ''count'') (JNum 5), Microtasks] init_elem"
  have a: "init_elem = exec example_cls [] init_elem" by simp
  have b: "?s = exec example_cls [Write (KStr ''count'') (JNum 5), Microtasks] init_elem" by simp
  have i: "\<not> hasRequestedUpdate init_elem" "length (promises init_elem) = 1" by (simp_all add: init_elem_def)
  have r: "\<forall>r \<in> set ?w. is_request r" by simp
  have f: "hasRequestedUpdate (exec example_cls ?w init_elem)" by (simp add: example_eval)
  have g: "hasRequestedUpdate ?s" "updateRequest ?s = 1" by (simp_all add: example_eval)
  have h: "\<not> hasRequestedUpdate (exec_event example_cls Frame ?s)" by (simp add: example_eval)
  have n: "Microtasks \<noteq> Frame" by simp
  have q: "\<exists>p s'. requestUpdate example_cls (Some (KStr ''count'')) (JNum 5) (JNum 7) ?s = Inr (p, s')"
    by (simp add: example_eval)
  show ?thesis
    using a i r f g h n q
      at_most_one_pending_pass [OF a, where reqs = ?w]
      at_most_one_pending_pass [OF b, where ev = Microtasks and k = "Some (KStr ''count'')"
        and oldValue = "JNum 5" and newValue = "JNum 7"]
    by (auto split: sum.splits prod.splits)
qed

section \<open>The promise of an update request\<close>













end
